theory Spec2Isabelle
  imports Main
begin

section \<open>Grid coordinates\<close>

text \<open>
  The program under verification is \<^verbatim>\<open>remap-rolling.js\<close> (centered, column-aligned
  variant, the second script of \<^verbatim>\<open>src/remap-rolling.js\<close>). JavaScript numbers are
  modelled as \<^typ>\<open>int\<close>: every number the script computes is an integer far below
  \<open>2^53\<close>, where double arithmetic is exact.

  The operator \<^verbatim>\<open>%\<close> of JavaScript truncates towards zero: the remainder has the
  sign of the dividend.
\<close>

definition js_rem :: "int \<Rightarrow> int \<Rightarrow> int" where
  "js_rem a b = (if a < 0 then - ((- a) mod \<bar>b\<bar>) else a mod \<bar>b\<bar>)"

record colrow =
  col :: int
  row :: int

text \<open>\<^verbatim>\<open>const toColRow = i => ({ col: Math.floor(i / 7), row: i % 7 });\<close>\<close>

definition toColRow :: "int \<Rightarrow> colrow" where
  "toColRow i = \<lparr> col = i div 7, row = js_rem i 7 \<rparr>"

text \<open>\<^verbatim>\<open>const fromColRow = (c, r) => c * 7 + r;\<close>\<close>

definition fromColRow :: "int \<Rightarrow> int \<Rightarrow> int" where
  "fromColRow c r = c * 7 + r"

section \<open>The grid mapper\<close>

definition GRID_WEEKS :: int where
  "GRID_WEEKS = 53"

definition rightmostCol :: int where
  "rightmostCol = GRID_WEEKS - 1"

text \<open>
  Step 1 of the script, \<^verbatim>\<open>Math.floor((GRID_WEEKS - width) / 2) - minCol\<close>.
\<close>

definition centerShift :: "int \<Rightarrow> int \<Rightarrow> int" where
  "centerShift minCol width = (GRID_WEEKS - width) div 2 - minCol"

text \<open>
  Step 2, the two clamp statements, in the order of the script:
  \<^verbatim>\<open>if (minCol + shiftCols < 0) shiftCols += -(minCol + shiftCols);\<close> and then
  \<^verbatim>\<open>if (maxCol + shiftCols > rightmostCol) shiftCols -= (maxCol + shiftCols - rightmostCol);\<close>
\<close>

definition clampLeft :: "int \<Rightarrow> int \<Rightarrow> int" where
  "clampLeft minCol shiftCols =
     (if minCol + shiftCols < 0 then shiftCols + - (minCol + shiftCols) else shiftCols)"

definition clampRight :: "int \<Rightarrow> int \<Rightarrow> int" where
  "clampRight maxCol shiftCols =
     (if maxCol + shiftCols > rightmostCol
      then shiftCols - (maxCol + shiftCols - rightmostCol) else shiftCols)"

definition clampShift :: "int \<Rightarrow> int \<Rightarrow> int \<Rightarrow> int" where
  "clampShift minCol maxCol shiftCols = clampRight maxCol (clampLeft minCol shiftCols)"

text \<open>
  Step 3. \<^verbatim>\<open>p => (p.col + shiftCols === rightmostCol) && (p.row > todayRow)\<close> and the
  loop \<^verbatim>\<open>while (colRows.some(violatesFuture) && (minCol + shiftCols > 0)) shiftCols -= 1;\<close>
\<close>

definition violatesFuture :: "int \<Rightarrow> int \<Rightarrow> colrow \<Rightarrow> bool" where
  "violatesFuture shiftCols todayRow p \<longleftrightarrow> col p + shiftCols = rightmostCol \<and> row p > todayRow"

function (domintros) avoidFuture :: "colrow list \<Rightarrow> int \<Rightarrow> int \<Rightarrow> int \<Rightarrow> int" where
  "avoidFuture colRows minCol todayRow shiftCols =
     (if list_ex (violatesFuture shiftCols todayRow) colRows \<and> minCol + shiftCols > 0
      then avoidFuture colRows minCol todayRow (shiftCols - 1)
      else shiftCols)"
  by pat_completeness auto
termination
  by (relation "measure (\<lambda>(colRows, minCol, todayRow, shiftCols). nat (minCol + shiftCols))") auto

declare avoidFuture.simps [simp del]

section \<open>Strings and the regular expressions of the script\<close>

text \<open>
  A JavaScript string is a sequence of UTF-16 code units; a code unit is modelled by its
  number (what \<^verbatim>\<open>charCodeAt\<close> returns) and a string as a list of them. The regular
  expressions of the script carry no \<^verbatim>\<open>u\<close> flag, so they match code unit by code
  unit.
\<close>

type_synonym cu = int
type_synonym jsstring = "int list"

definition str :: "string \<Rightarrow> jsstring" where
  "str s = map of_char s"

text \<open>
  The character classes: \<^verbatim>\<open>.\<close> excludes the four line terminators, \<^verbatim>\<open>\s\<close> is
  the white space of ECMAScript together with the line terminators.
\<close>

definition isLineTerminator :: "cu \<Rightarrow> bool" where
  "isLineTerminator c \<longleftrightarrow> c = 10 \<or> c = 13 \<or> c = 8232 \<or> c = 8233"

definition isWhiteSpace :: "cu \<Rightarrow> bool" where
  "isWhiteSpace c \<longleftrightarrow>
     c = 9 \<or> c = 11 \<or> c = 12 \<or> c = 32 \<or> c = 160 \<or> c = 5760 \<or> (8192 \<le> c \<and> c \<le> 8202) \<or>
     c = 8239 \<or> c = 8287 \<or> c = 12288 \<or> c = 65279 \<or> isLineTerminator c"

definition isUpper :: "cu \<Rightarrow> bool" where
  "isUpper c \<longleftrightarrow> 65 \<le> c \<and> c \<le> 90"

definition isLower :: "cu \<Rightarrow> bool" where
  "isLower c \<longleftrightarrow> 97 \<le> c \<and> c \<le> 122"

definition isDigit :: "cu \<Rightarrow> bool" where
  "isDigit c \<longleftrightarrow> 48 \<le> c \<and> c \<le> 57"

definition isSign :: "cu \<Rightarrow> bool" where
  "isSign c \<longleftrightarrow> c = 43 \<or> c = 45"

definition notLineTerminator :: "cu \<Rightarrow> bool" where
  "notLineTerminator c \<longleftrightarrow> \<not> isLineTerminator c"

definition notQuote :: "cu \<Rightarrow> bool" where
  "notQuote c \<longleftrightarrow> c \<noteq> 39"

definition notParen :: "cu \<Rightarrow> bool" where
  "notParen c \<longleftrightarrow> c \<noteq> 41"

text \<open>
  The pieces the regular expressions of the script are made of: a literal, one
  character of a class, a class under \<^verbatim>\<open>*\<close> or \<^verbatim>\<open>+\<close>, and the assertion \<^verbatim>\<open>$\<close>
  under the \<^verbatim>\<open>m\<close> flag. A repetition takes the longest run of its class. In every
  expression of the script the piece after a repetition cannot begin with a character
  of the repeated class (\<^verbatim>\<open>\s+\<close> is followed by a letter, a dash or a quote,
  \<^verbatim>\<open>[^']*\<close> by a quote, \<^verbatim>\<open>[^)]+\<close> by a closing parenthesis, \<^verbatim>\<open>.*\<close> by \<^verbatim>\<open>$\<close>), so the
  longest run is the only one a backtracking matcher can succeed with.
\<close>

datatype atom =
  Lit jsstring
  | Cls "cu \<Rightarrow> bool"
  | Star "cu \<Rightarrow> bool"
  | Plus "cu \<Rightarrow> bool"
  | Eol

fun matchAtom :: "atom \<Rightarrow> jsstring \<Rightarrow> jsstring option" where
  "matchAtom (Lit w) cs = (if take (length w) cs = w then Some (drop (length w) cs) else None)"
| "matchAtom (Cls P) [] = None"
| "matchAtom (Cls P) (c # cs) = (if P c then Some cs else None)"
| "matchAtom (Star P) cs = Some (dropWhile P cs)"
| "matchAtom (Plus P) [] = None"
| "matchAtom (Plus P) (c # cs) = (if P c then Some (dropWhile P cs) else None)"
| "matchAtom Eol [] = Some []"
| "matchAtom Eol (c # cs) = (if isLineTerminator c then Some (c # cs) else None)"

fun matchSeq :: "atom list \<Rightarrow> jsstring \<Rightarrow> jsstring option" where
  "matchSeq [] cs = Some cs"
| "matchSeq (a # as) cs = (case matchAtom a cs of None \<Rightarrow> None | Some r \<Rightarrow> matchSeq as r)"

text \<open>
  A regular expression is a list of groups, each a sequence of pieces; a match yields
  the text of each group, in order, and the text after the match. The groups cover the
  whole match, so the matched text is their concatenation.
\<close>

fun matchGroups :: "atom list list \<Rightarrow> jsstring \<Rightarrow> (jsstring list \<times> jsstring) option" where
  "matchGroups [] cs = Some ([], cs)"
| "matchGroups (g # gs) cs =
     (case matchSeq g cs of
        None \<Rightarrow> None
      | Some r \<Rightarrow>
          (case matchGroups gs r of
             None \<Rightarrow> None
           | Some (caps, r') \<Rightarrow> Some (take (length cs - length r) cs # caps, r')))"

text \<open>
  \<^verbatim>\<open>^\<close> under the \<^verbatim>\<open>m\<close> flag holds at the start of the input and after a line
  terminator; the scan passes the previous code unit along.
\<close>

definition atLineStart :: "cu option \<Rightarrow> bool" where
  "atLineStart prev = (case prev of None \<Rightarrow> True | Some c \<Rightarrow> isLineTerminator c)"

datatype error = Error jsstring

text \<open>
  \<^verbatim>\<open>String.prototype.replace\<close> with a global regular expression and a replacer
  function: the input is scanned from the left; where the expression matches, the
  replacer's text is emitted and the scan resumes after the match (after one more code
  unit when the match is empty); elsewhere the code unit is copied. An exception of the
  replacer ends the call. The expression sees the previous code unit and the rest of
  the input, and answers with its groups.
\<close>

fun jsReplace ::
  "(cu option \<Rightarrow> jsstring \<Rightarrow> jsstring list option) \<Rightarrow> (jsstring list \<Rightarrow> error + jsstring) \<Rightarrow>
     cu option \<Rightarrow> jsstring \<Rightarrow> error + jsstring" where
  "jsReplace re f prev [] = (case re prev [] of None \<Rightarrow> Inr [] | Some g \<Rightarrow> f g)"
| "jsReplace re f prev (c # cs) =
     (case re prev (c # cs) of
        None \<Rightarrow>
          (case jsReplace re f (Some c) cs of Inl e \<Rightarrow> Inl e | Inr out \<Rightarrow> Inr (c # out))
      | Some g \<Rightarrow>
          (case f g of
             Inl e \<Rightarrow> Inl e
           | Inr r \<Rightarrow>
               (if concat g = []
                then (case jsReplace re f (Some c) cs of
                        Inl e \<Rightarrow> Inl e | Inr out \<Rightarrow> Inr (r @ c # out))
                else (case jsReplace re f (Some (last (concat g)))
                             (drop (length (concat g) - 1) cs) of
                        Inl e \<Rightarrow> Inl e | Inr out \<Rightarrow> Inr (r @ out)))))"

text \<open>
  The loop \<^verbatim>\<open>for (let m; (m = msgRe.exec(input)) !== null; ) msgs.push(m[1])\<close>: the
  successive matches of a global expression, each search starting where the last match
  ended. The expression of the script consumes at least the word \<^verbatim>\<open>git\<close>, so a match
  is never empty.
\<close>

fun execAll ::
  "(cu option \<Rightarrow> jsstring \<Rightarrow> jsstring list option) \<Rightarrow> cu option \<Rightarrow> jsstring \<Rightarrow> jsstring list list" where
  "execAll re prev [] = []"
| "execAll re prev (c # cs) =
     (case re prev (c # cs) of
        None \<Rightarrow> execAll re (Some c) cs
      | Some g \<Rightarrow> g # execAll re (Some (last (concat g))) (drop (length (concat g) - 1) cs))"

text \<open>
  \<^verbatim>\<open>String.prototype.replace\<close> with a global regular expression and a replacement
  string that holds no \<^verbatim>\<open>$\<close> pattern (the sanitizer replaces by the empty string).
\<close>

fun jsReplaceStr ::
  "(cu option \<Rightarrow> jsstring \<Rightarrow> jsstring list option) \<Rightarrow> jsstring \<Rightarrow> cu option \<Rightarrow> jsstring \<Rightarrow> jsstring" where
  "jsReplaceStr re r prev [] = (case re prev [] of None \<Rightarrow> [] | Some g \<Rightarrow> r)"
| "jsReplaceStr re r prev (c # cs) =
     (case re prev (c # cs) of
        None \<Rightarrow> c # jsReplaceStr re r (Some c) cs
      | Some g \<Rightarrow>
          (if concat g = []
           then r @ c # jsReplaceStr re r (Some c) cs
           else r @ jsReplaceStr re r (Some (last (concat g))) (drop (length (concat g) - 1) cs)))"

text \<open>
  The scan behind \<^verbatim>\<open>replace\<close>, taken alone: the matches of a global expression
  from the left, each with the text that was passed over before it, and the text after
  the last match. \<open>skip\<close> adds a code unit that was passed over.
\<close>

fun skip :: "cu \<Rightarrow> (jsstring \<times> jsstring list) list \<times> jsstring \<Rightarrow> (jsstring \<times> jsstring list) list \<times> jsstring" where
  "skip c ([], tail) = ([], c # tail)"
| "skip c ((pre, g) # segs, tail) = ((c # pre, g) # segs, tail)"

fun scan ::
  "(cu option \<Rightarrow> jsstring \<Rightarrow> jsstring list option) \<Rightarrow> cu option \<Rightarrow> jsstring \<Rightarrow>
     (jsstring \<times> jsstring list) list \<times> jsstring" where
  "scan re prev [] = (case re prev [] of None \<Rightarrow> ([], []) | Some g \<Rightarrow> ([([], g)], []))"
| "scan re prev (c # cs) =
     (case re prev (c # cs) of
        None \<Rightarrow> skip c (scan re (Some c) cs)
      | Some g \<Rightarrow>
          (if concat g = []
           then (case skip c (scan re (Some c) cs) of (segs, tail) \<Rightarrow> (([], g) # segs, tail))
           else (case scan re (Some (last (concat g))) (drop (length (concat g) - 1) cs) of
                   (segs, tail) \<Rightarrow> (([], g) # segs, tail))))"

text \<open>
  The text that \<^verbatim>\<open>replace\<close> builds from a scan and a replacer function: the replacer
  is called on the matches in order, and its first exception ends the call.
\<close>

fun rebuild ::
  "(jsstring list \<Rightarrow> error + jsstring) \<Rightarrow> (jsstring \<times> jsstring list) list \<Rightarrow> jsstring \<Rightarrow> error + jsstring" where
  "rebuild f [] tail = Inr tail"
| "rebuild f ((pre, g) # segs) tail =
     (case f g of
        Inl e \<Rightarrow> Inl e
      | Inr r \<Rightarrow> (case rebuild f segs tail of Inl e \<Rightarrow> Inl e | Inr out \<Rightarrow> Inr (pre @ r @ out)))"

text \<open>An expression that starts with \<^verbatim>\<open>^\<close> (flag \<^verbatim>\<open>m\<close>), and one that starts anywhere.\<close>

definition anchored :: "atom list list \<Rightarrow> cu option \<Rightarrow> jsstring \<Rightarrow> jsstring list option" where
  "anchored gs prev cs = (if atLineStart prev then map_option fst (matchGroups gs cs) else None)"

definition unanchored :: "atom list list \<Rightarrow> cu option \<Rightarrow> jsstring \<Rightarrow> jsstring list option" where
  "unanchored gs prev cs = map_option fst (matchGroups gs cs)"

subsection \<open>The expressions of the script\<close>

text \<open>
  \<^verbatim>\<open>/[A-Z][a-z]{2}\s[A-Z][a-z]{2}\s\d{2}\s2019\s\d{2}:\d{2}:\d{2}\sGMT[+-]\d{4}\s\([^)]+\)/\<close>
\<close>

definition FULL_2019 :: "atom list" where
  "FULL_2019 =
     [Cls isUpper, Cls isLower, Cls isLower, Cls isWhiteSpace,
      Cls isUpper, Cls isLower, Cls isLower, Cls isWhiteSpace,
      Cls isDigit, Cls isDigit, Cls isWhiteSpace,
      Lit (str ''2019''), Cls isWhiteSpace,
      Cls isDigit, Cls isDigit, Lit (str '':''), Cls isDigit, Cls isDigit, Lit (str '':''),
      Cls isDigit, Cls isDigit, Cls isWhiteSpace,
      Lit (str ''GMT''), Cls isSign, Cls isDigit, Cls isDigit, Cls isDigit, Cls isDigit,
      Cls isWhiteSpace,
      Lit (str ''(''), Plus notParen, Lit (str '')'')]"

text \<open>
  The five expressions of the sanitizer, each with the flags \<^verbatim>\<open>gm\<close>:
  \<^verbatim>\<open>/^mkdir\s+github_painter.*$/\<close>, \<^verbatim>\<open>/^cd\s+github_painter.*$/\<close>, \<^verbatim>\<open>/^git\s+init.*$/\<close>,
  \<^verbatim>\<open>/^git\s+remote\s+add\s+origin.*$/\<close>, \<^verbatim>\<open>/^git\s+pull\s+origin.*$/\<close>.
  The leading \<^verbatim>\<open>^\<close> is the \<open>anchored\<close> of their use.
\<close>

definition dropPatterns :: "atom list list" where
  "dropPatterns =
     [[Lit (str ''mkdir''), Plus isWhiteSpace, Lit (str ''github_painter''),
       Star notLineTerminator, Eol],
      [Lit (str ''cd''), Plus isWhiteSpace, Lit (str ''github_painter''),
       Star notLineTerminator, Eol],
      [Lit (str ''git''), Plus isWhiteSpace, Lit (str ''init''), Star notLineTerminator, Eol],
      [Lit (str ''git''), Plus isWhiteSpace, Lit (str ''remote''), Plus isWhiteSpace,
       Lit (str ''add''), Plus isWhiteSpace, Lit (str ''origin''), Star notLineTerminator, Eol],
      [Lit (str ''git''), Plus isWhiteSpace, Lit (str ''pull''), Plus isWhiteSpace,
       Lit (str ''origin''), Star notLineTerminator, Eol]]"

text \<open>\<^verbatim>\<open>[...].forEach(re => (input = input.replace(re, "")))\<close>\<close>

definition sanitize :: "jsstring \<Rightarrow> jsstring" where
  "sanitize raw = foldl (\<lambda>input re. jsReplaceStr (anchored [re]) [] None input) raw dropPatterns"

text \<open>
  \<^verbatim>\<open>(?:^|\n)git\s+commit\s+--date='[^']*'\s+-m\s+'(FULL_2019)'\<close>, flags \<^verbatim>\<open>gm\<close>. The first
  alternative is tried first. The groups of a match are the text of the alternative,
  the text up to the opening quote of the message, the date (the capture \<^verbatim>\<open>m[1]\<close>)
  and the closing quote.
\<close>

definition commitHead :: "atom list" where
  "commitHead =
     [Lit (str ''git''), Plus isWhiteSpace, Lit (str ''commit''), Plus isWhiteSpace,
      Lit (str ''--date='' @ [39])]"

definition commitMid :: "atom list" where
  "commitMid = [Lit [39], Plus isWhiteSpace, Lit (str ''-m''), Plus isWhiteSpace, Lit [39]]"

definition msgGroups :: "atom list list" where
  "msgGroups = [commitHead @ [Star notQuote] @ commitMid, FULL_2019, [Lit [39]]]"

definition msgRe :: "cu option \<Rightarrow> jsstring \<Rightarrow> jsstring list option" where
  "msgRe prev cs =
     (case (if atLineStart prev then matchGroups msgGroups cs else None) of
        Some (g, r) \<Rightarrow> Some ([] # g)
      | None \<Rightarrow> map_option fst (matchGroups ([Lit [10]] # msgGroups) cs))"

definition anchors :: "jsstring \<Rightarrow> jsstring list" where
  "anchors input = map (\<lambda>m. m ! 2) (execAll msgRe None input)"

text \<open>
  \<^verbatim>\<open>(echo\s+')(FULL_2019)('\s*>>\s*foobar\.txt)\<close> and
  \<^verbatim>\<open>(git\s+commit\s+--date=')([^']*)('\s+-m\s+')(FULL_2019)(')\<close>, both with the flag
  \<^verbatim>\<open>g\<close>; every group is a capture.
\<close>

definition echoGroups :: "atom list list" where
  "echoGroups =
     [[Lit (str ''echo''), Plus isWhiteSpace, Lit [39]],
      FULL_2019,
      [Lit [39], Star isWhiteSpace, Lit (str ''>>''), Star isWhiteSpace, Lit (str ''foobar.txt'')]]"

definition commitGroups :: "atom list list" where
  "commitGroups = [commitHead, [Star notQuote], commitMid, FULL_2019, [Lit [39]]]"

definition echoRe :: "cu option \<Rightarrow> jsstring \<Rightarrow> jsstring list option" where
  "echoRe = unanchored echoGroups"

definition commitRe :: "cu option \<Rightarrow> jsstring \<Rightarrow> jsstring list option" where
  "commitRe = unanchored commitGroups"

text \<open>
  \<^verbatim>\<open>/^([A-Z][a-z]{2}) ([A-Z][a-z]{2}) (\d{2}) (\d{4}) /\<close> of \<^verbatim>\<open>parseFullDayUTC\<close>; the
  captures are the groups 0, 2, 4 and 6. Without the flag \<^verbatim>\<open>m\<close> the expression
  matches at the start of the string only.
\<close>

definition dateHead :: "atom list list" where
  "dateHead =
     [[Cls isUpper, Cls isLower, Cls isLower], [Lit [32]],
      [Cls isUpper, Cls isLower, Cls isLower], [Lit [32]],
      [Cls isDigit, Cls isDigit], [Lit [32]],
      [Cls isDigit, Cls isDigit, Cls isDigit, Cls isDigit], [Lit [32]]]"

section \<open>Dates\<close>

text \<open>
  The built-in \<^verbatim>\<open>Date\<close> of ECMAScript, in UTC: a time value is a number of
  milliseconds since 1 January 1970. \<open>dayFromYear\<close>, \<open>inLeapYear\<close> and \<open>makeDay\<close>
  are the abstract operations of ECMA-262; a month outside \<open>0..11\<close> carries into the
  year and a day of the month outside the month carries into the following days. The
  range check of \<^verbatim>\<open>TimeClip\<close> is left out: the script builds dates of four-digit years.
\<close>

definition msPerDay :: int where
  "msPerDay = 86400000"

definition dayFromYear :: "int \<Rightarrow> int" where
  "dayFromYear y =
     365 * (y - 1970) + (y - 1969) div 4 - (y - 1901) div 100 + (y - 1601) div 400"

definition inLeapYear :: "int \<Rightarrow> bool" where
  "inLeapYear y \<longleftrightarrow> y mod 4 = 0 \<and> (y mod 100 \<noteq> 0 \<or> y mod 400 = 0)"

definition monthStart :: "int \<Rightarrow> bool \<Rightarrow> int" where
  "monthStart mn leap =
     [0, 31, 59, 90, 120, 151, 181, 212, 243, 273, 304, 334] ! nat mn
       + (if leap \<and> 2 \<le> mn then 1 else 0)"

definition makeDay :: "int \<Rightarrow> int \<Rightarrow> int \<Rightarrow> int" where
  "makeDay year month date =
     (let ym = year + month div 12; mn = month mod 12
      in dayFromYear ym + monthStart mn (inLeapYear ym) + date - 1)"

text \<open>\<^verbatim>\<open>Date.UTC(year, month, date, 0, 0, 0)\<close>; a year from 0 to 99 means 1900 + year.\<close>

definition dateUTC :: "int \<Rightarrow> int \<Rightarrow> int \<Rightarrow> int" where
  "dateUTC year month date =
     (let yr = (if 0 \<le> year \<and> year \<le> 99 then 1900 + year else year)
      in makeDay yr month date * msPerDay)"

text \<open>\<^verbatim>\<open>getUTCDay\<close>: 0 is Sunday; 1 January 1970 was a Thursday.\<close>

definition getUTCDay :: "int \<Rightarrow> int" where
  "getUTCDay t = (t div msPerDay + 4) mod 7"

text \<open>
  Year, month (from 0) and day of the month of a day number, by the usual closed form
  of the proleptic Gregorian calendar (eras of 400 years that start on 1 March).
\<close>

definition civilFromDays :: "int \<Rightarrow> int \<times> int \<times> int" where
  "civilFromDays day =
     (let z = day + 719468;
          era = z div 146097;
          doe = z - era * 146097;
          yoe = (doe - doe div 1460 + doe div 36524 - doe div 146096) div 365;
          doy = doe - (365 * yoe + yoe div 4 - yoe div 100);
          mp = (5 * doy + 2) div 153;
          d = doy - (153 * mp + 2) div 5 + 1;
          m = (if mp < 10 then mp + 3 else mp - 9);
          y = yoe + era * 400 + (if m \<le> 2 then 1 else 0)
      in (y, m - 1, d))"

definition getUTCFullYear :: "int \<Rightarrow> int" where
  "getUTCFullYear t = fst (civilFromDays (t div msPerDay))"

definition getUTCMonth :: "int \<Rightarrow> int" where
  "getUTCMonth t = fst (snd (civilFromDays (t div msPerDay)))"

definition getUTCDate :: "int \<Rightarrow> int" where
  "getUTCDate t = snd (snd (civilFromDays (t div msPerDay)))"

definition DOW :: "jsstring list" where
  "DOW = map str [''Sun'', ''Mon'', ''Tue'', ''Wed'', ''Thu'', ''Fri'', ''Sat'']"

definition MON :: "jsstring list" where
  "MON = map str [''Jan'', ''Feb'', ''Mar'', ''Apr'', ''May'', ''Jun'',
                  ''Jul'', ''Aug'', ''Sep'', ''Oct'', ''Nov'', ''Dec'']"

text \<open>\<^verbatim>\<open>Array.prototype.indexOf\<close>: the first index of the element, or \<open>-1\<close>.\<close>

fun indexOf :: "'a list \<Rightarrow> 'a \<Rightarrow> int" where
  "indexOf [] x = - 1"
| "indexOf (y # ys) x = (if x = y then 0 else (let i = indexOf ys x in if i < 0 then - 1 else i + 1))"

text \<open>The unary \<^verbatim>\<open>+\<close> on a string of decimal digits.\<close>

definition toNumber :: "jsstring \<Rightarrow> int" where
  "toNumber ds = foldl (\<lambda>a c. a * 10 + (c - 48)) 0 ds"

text \<open>
  \<^verbatim>\<open>String(n)\<close> for an integer (\<open>digits\<close> is the decimal numeral of a number that
  is not negative), and \<^verbatim>\<open>padStart(2, "0")\<close>.
\<close>

function digits :: "int \<Rightarrow> jsstring" where
  "digits n = (if n < 10 then [48 + n] else digits (n div 10) @ [48 + n mod 10])"
  by pat_completeness auto
termination
  by (relation "measure nat") auto

declare digits.simps [simp del]

definition numberToString :: "int \<Rightarrow> jsstring" where
  "numberToString i = (if i < 0 then 45 # digits (- i) else digits i)"

definition padStart2 :: "jsstring \<Rightarrow> jsstring" where
  "padStart2 s = replicate (2 - length s) 48 @ s"

text \<open>\<^verbatim>\<open>gridStartUTC\<close>, \<^verbatim>\<open>weekStartUTC\<close>, \<^verbatim>\<open>parseFullDayUTC\<close> and \<^verbatim>\<open>fmtUTCNoon\<close>.\<close>

definition gridStartUTC :: "int \<Rightarrow> int" where
  "gridStartUTC year = (let jan1 = dateUTC year 0 1; wd = getUTCDay jan1 in jan1 - wd * 86400000)"

definition weekStartUTC :: "int \<Rightarrow> int" where
  "weekStartUTC dayUTCms = (let wd = getUTCDay dayUTCms in dayUTCms - wd * 86400000)"

definition parseFullDayUTC :: "jsstring \<Rightarrow> error + int" where
  "parseFullDayUTC s =
     (case matchGroups dateHead s of
        None \<Rightarrow> Inl (Error (str ''Bad date: '' @ s))
      | Some (m, r) \<Rightarrow>
          (let monStr = m ! 2; dd = toNumber (m ! 4); yyyy = toNumber (m ! 6)
           in Inr (dateUTC yyyy (indexOf MON monStr) dd)))"

definition fmtUTCNoon :: "int \<Rightarrow> jsstring" where
  "fmtUTCNoon dayUTCms =
     (let d = dayUTCms + 12 * 3600 * 1000;
          dow = DOW ! nat (getUTCDay d);
          mon = MON ! nat (getUTCMonth d);
          dd = padStart2 (numberToString (getUTCDate d));
          yyyy = numberToString (getUTCFullYear d)
      in dow @ str '' '' @ mon @ str '' '' @ dd @ str '' '' @ yyyy
           @ str '' 12:00:00 GMT+0000 (UTC)'')"

section \<open>The script\<close>

text \<open>
  \<^verbatim>\<open>Math.floor((parseFullDayUTC(s) - start2019) / 86400000)\<close>, the day index of a date
  string from the start of the 2019 grid.
\<close>

definition dayIndex :: "int \<Rightarrow> jsstring \<Rightarrow> error + int" where
  "dayIndex start2019 s =
     (case parseFullDayUTC s of Inl e \<Rightarrow> Inl e | Inr t \<Rightarrow> Inr ((t - start2019) div 86400000))"

text \<open>\<^verbatim>\<open>Array.prototype.map\<close> with a function that may throw: the first exception ends it.\<close>

fun mapE :: "('a \<Rightarrow> error + 'b) \<Rightarrow> 'a list \<Rightarrow> error + 'b list" where
  "mapE f [] = Inr []"
| "mapE f (x # xs) =
     (case f x of
        Inl e \<Rightarrow> Inl e
      | Inr y \<Rightarrow> (case mapE f xs of Inl e \<Rightarrow> Inl e | Inr ys \<Rightarrow> Inr (y # ys)))"

text \<open>
  The body of \<^verbatim>\<open>remapOne\<close> after the day index: the coordinate, shifted by
  \<open>shiftCols\<close> columns, is read back as a day index from the start of the window.
\<close>

definition newIdxFromWindow :: "int \<Rightarrow> int \<Rightarrow> int" where
  "newIdxFromWindow shiftCols oldIdx =
     (let p = toColRow oldIdx in fromColRow (col p + shiftCols) (row p))"

definition remapOne :: "int \<Rightarrow> int \<Rightarrow> int \<Rightarrow> jsstring \<Rightarrow> error + jsstring" where
  "remapOne start2019 shiftCols windowStartUTC fullStr =
     (case dayIndex start2019 fullStr of
        Inl e \<Rightarrow> Inl e
      | Inr oldIdx \<Rightarrow>
          (let newIdx = newIdxFromWindow shiftCols oldIdx;
               newDayUTC = windowStartUTC + newIdx * 86400000
           in Inr (fmtUTCNoon newDayUTC)))"

text \<open>
  The replacer functions \<^verbatim>\<open>(_, a, date, c) => a + remapOne(date) + c\<close> and
  \<^verbatim>\<open>(_, a, anyDate, b, msgDate, e) => { const mapped = remapOne(msgDate);
  return a + mapped + b + mapped + e; }\<close>
\<close>

definition echoRepl :: "(jsstring \<Rightarrow> error + jsstring) \<Rightarrow> jsstring list \<Rightarrow> error + jsstring" where
  "echoRepl remap g =
     (case remap (g ! 1) of Inl e \<Rightarrow> Inl e | Inr d \<Rightarrow> Inr (g ! 0 @ d @ g ! 2))"

definition commitRepl :: "(jsstring \<Rightarrow> error + jsstring) \<Rightarrow> jsstring list \<Rightarrow> error + jsstring" where
  "commitRepl remap g =
     (case remap (g ! 3) of
        Inl e \<Rightarrow> Inl e
      | Inr mapped \<Rightarrow> Inr (g ! 0 @ mapped @ g ! 2 @ mapped @ g ! 4))"

text \<open>
  The column shift of the script: centered, clamped, then moved left while a pixel
  falls on a future day of the current week.
\<close>

definition gridShift :: "colrow list \<Rightarrow> int \<Rightarrow> int" where
  "gridShift colRows todayRow =
     (let minCol = Min (set (map col colRows));
          maxCol = Max (set (map col colRows));
          width = maxCol - minCol + 1
      in avoidFuture colRows minCol todayRow
           (clampShift minCol maxCol (centerShift minCol width)))"

text \<open>
  \<^verbatim>\<open>main\<close>, from the text of the template on. \<open>now\<close> is the time value of
  \<^verbatim>\<open>new Date()\<close> (the script reads the clock three times in one expression; the
  model reads it once). The result is the text written to the standard output, or the
  exception that ended the run; the script writes once, as its last statement, so a
  run that throws has written nothing.
\<close>

definition main :: "int \<Rightarrow> jsstring \<Rightarrow> error + jsstring" where
  "main now raw =
     (let input = sanitize raw;
          msgs = anchors input
      in if msgs = [] then Inr input
         else
           (let start2019 = gridStartUTC 2019
            in case mapE (dayIndex start2019) msgs of
                 Inl e \<Rightarrow> Inl e
               | Inr idxs \<Rightarrow>
                   (let colRows = map toColRow idxs;
                        nowUTC = dateUTC (getUTCFullYear now) (getUTCMonth now) (getUTCDate now);
                        thisSun = weekStartUTC nowUTC;
                        windowStartUTC = thisSun - (GRID_WEEKS - 1) * 7 * 86400000;
                        todayRow = getUTCDay nowUTC;
                        shiftCols = gridShift colRows todayRow;
                        remap = remapOne start2019 shiftCols windowStartUTC
                    in case jsReplace echoRe (echoRepl remap) None input of
                         Inl e \<Rightarrow> Inl e
                       | Inr input' \<Rightarrow>
                           jsReplace commitRe (commitRepl remap) None input')))"

text \<open>
  The values of \<^verbatim>\<open>nowUTC\<close>, \<^verbatim>\<open>windowStartUTC\<close>, \<^verbatim>\<open>todayRow\<close> and \<^verbatim>\<open>shiftCols\<close> in a
  run of \<^verbatim>\<open>main\<close> at the time \<open>now\<close> with the day indices \<open>idxs\<close> of the anchors, the
  closure \<^verbatim>\<open>remapOne\<close> of that run, and the text it returns for a date string (empty
  where it throws).
\<close>

definition runNowUTC :: "int \<Rightarrow> int" where
  "runNowUTC now = dateUTC (getUTCFullYear now) (getUTCMonth now) (getUTCDate now)"

definition runWindowStart :: "int \<Rightarrow> int" where
  "runWindowStart now = weekStartUTC (runNowUTC now) - (GRID_WEEKS - 1) * 7 * 86400000"

definition runTodayRow :: "int \<Rightarrow> int" where
  "runTodayRow now = getUTCDay (runNowUTC now)"

definition runShift :: "int \<Rightarrow> int list \<Rightarrow> int" where
  "runShift now idxs = gridShift (map toColRow idxs) (runTodayRow now)"

definition runRemap :: "int \<Rightarrow> int list \<Rightarrow> jsstring \<Rightarrow> error + jsstring" where
  "runRemap now idxs = remapOne (gridStartUTC 2019) (runShift now idxs) (runWindowStart now)"

definition runMapped :: "int \<Rightarrow> int list \<Rightarrow> jsstring \<Rightarrow> jsstring" where
  "runMapped now idxs d = (case runRemap now idxs d of Inl e \<Rightarrow> [] | Inr mapped \<Rightarrow> mapped)"

section \<open>Lines\<close>

text \<open>
  The sanitizer is specified line by line. A text is a sequence of lines, each ended by
  one line terminator, and a last line that no terminator ends (a carriage return and
  the line feed after it end two lines, the second of them empty, as under the \<^verbatim>\<open>m\<close>
  flag).
\<close>

fun splitLines :: "jsstring \<Rightarrow> (jsstring \<times> cu) list \<times> jsstring" where
  "splitLines [] = ([], [])"
| "splitLines (c # cs) =
     (case splitLines cs of
        (ls, final) \<Rightarrow>
          if isLineTerminator c then (([], c) # ls, final)
          else (case ls of
                  [] \<Rightarrow> ([], c # final)
                | (l, t) # ls' \<Rightarrow> ((c # l, t) # ls', final)))"

fun joinLines :: "(jsstring \<times> cu) list \<Rightarrow> jsstring \<Rightarrow> jsstring" where
  "joinLines [] final = final"
| "joinLines ((l, t) # ls) final = l @ t # joinLines ls final"

text \<open>The lines that a line terminator ends.\<close>

definition terminatedLines :: "jsstring \<Rightarrow> jsstring list" where
  "terminatedLines raw = map fst (fst (splitLines raw))"

text \<open>A line that one of the five expressions of the sanitizer matches, from its start.\<close>

definition setupLine :: "jsstring \<Rightarrow> bool" where
  "setupLine l = list_ex (\<lambda>re. matchSeq re l \<noteq> None) dropPatterns"

text \<open>
  The sanitizer in the words of the specification: every whole line that matches one of
  the expressions is removed (with the terminator that ends it), every other line is
  left as it is.
\<close>

definition specRemoveLines :: "jsstring \<Rightarrow> jsstring" where
  "specRemoveLines raw =
     (case splitLines raw of
        (ls, final) \<Rightarrow>
          joinLines (filter (\<lambda>(l, t). \<not> setupLine l) ls) (if setupLine final then [] else final))"

text \<open>
  What the script does to a line: the text of a matching line is replaced by the empty
  string, and its terminator stays.
\<close>

definition blankSetupLines :: "jsstring \<Rightarrow> jsstring" where
  "blankSetupLines raw =
     (case splitLines raw of
        (ls, final) \<Rightarrow>
          joinLines (map (\<lambda>(l, t). (if setupLine l then [] else l, t)) ls)
            (if setupLine final then [] else final))"

text \<open>
  \<^verbatim>\<open>\s\<close> contains the line terminators, so a \<^verbatim>\<open>\s+\<close> of an expression runs over the end
  of a line when it is reached with nothing but white space left on the line. The
  predicate says so of an expression and a line taken alone: matching the expression
  on the line arrives at a \<^verbatim>\<open>+\<close> repetition whose class holds all that is left of the
  line. For the sanitizer these are the lines that consist of the first words of a
  setup command (\<^verbatim>\<open>mkdir\<close>, \<^verbatim>\<open>cd\<close>, \<^verbatim>\<open>git\<close>, \<^verbatim>\<open>git remote\<close>, \<^verbatim>\<open>git remote add\<close>,
  \<^verbatim>\<open>git pull\<close>) and white space.
\<close>

fun crossesLine :: "atom list \<Rightarrow> jsstring \<Rightarrow> bool" where
  "crossesLine [] l = False"
| "crossesLine (Plus P # as) l =
     (list_all P l \<or> (case matchAtom (Plus P) l of None \<Rightarrow> False | Some r \<Rightarrow> crossesLine as r))"
| "crossesLine (a # as) l = (case matchAtom a l of None \<Rightarrow> False | Some r \<Rightarrow> crossesLine as r)"

definition crossing :: "jsstring \<Rightarrow> bool" where
  "crossing l = list_ex (\<lambda>re. crossesLine re l) dropPatterns"

text \<open>
  The shape of the expressions of the sanitizer: words separated by \<^verbatim>\<open>\s+\<close>, then
  \<^verbatim>\<open>.*$\<close>.
\<close>

fun tailRe :: "jsstring list \<Rightarrow> atom list" where
  "tailRe [] = [Star notLineTerminator, Eol]"
| "tailRe (w # ws) = Plus isWhiteSpace # Lit w # tailRe ws"

definition wordsRe :: "jsstring \<Rightarrow> jsstring list \<Rightarrow> atom list" where
  "wordsRe w ws = Lit w # tailRe ws"

definition dropWords :: "(jsstring \<times> jsstring list) list" where
  "dropWords =
     [(str ''mkdir'', [str ''github_painter'']),
      (str ''cd'', [str ''github_painter'']),
      (str ''git'', [str ''init'']),
      (str ''git'', [str ''remote'', str ''add'', str ''origin'']),
      (str ''git'', [str ''pull'', str ''origin''])]"

section \<open>Properties of the grid mapper\<close>

subsection \<open>Coordinates\<close>

lemma js_rem_nonneg: "0 \<le> i \<Longrightarrow> js_rem i 7 = i mod 7"
  by (simp add: js_rem_def)

lemma toColRow_fromColRow:
  "0 \<le> c \<Longrightarrow> 0 \<le> r \<Longrightarrow> r < 7 \<Longrightarrow> toColRow (fromColRow c r) = \<lparr> col = c, row = r \<rparr>"
  by (simp add: toColRow_def fromColRow_def js_rem_def)

lemma row_toColRow_range: "0 \<le> i \<Longrightarrow> 0 \<le> row (toColRow i) \<and> row (toColRow i) < 7"
  by (simp add: toColRow_def js_rem_nonneg)

lemma toColRow_newIdxFromWindow:
  assumes "0 \<le> i" and "0 \<le> col (toColRow i) + s"
  shows "toColRow (newIdxFromWindow s i) = \<lparr> col = col (toColRow i) + s, row = row (toColRow i) \<rparr>"
proof -
  from assms(1) have "0 \<le> row (toColRow i)" and "row (toColRow i) < 7"
    using row_toColRow_range by blast+
  with assms(2) show ?thesis
    by (simp add: newIdxFromWindow_def Let_def toColRow_fromColRow)
qed

text \<open>
  Claim C4, as amended. For every day index \<open>i\<close> that is not negative, the grid
  coordinate of \<open>i\<close> read back with \<open>fromColRow\<close> is \<open>i\<close>. Every date from the
  start of the 2019 grid on (30 December 2018) has such an index.
\<close>

theorem fromColRow_toColRow:
  "0 \<le> i \<Longrightarrow> fromColRow (col (toColRow i)) (row (toColRow i)) = i"
  by (simp add: fromColRow_def toColRow_def js_rem_nonneg)

theorem fromColRow_toColRow_witness:
  "(0::int) \<le> 8 \<and> fromColRow (col (toColRow 8)) (row (toColRow 8)) = 8"
  using fromColRow_toColRow [of 8] by simp

text \<open>
  Claim C4 as stated fails on a negative day index, where \<^verbatim>\<open>%\<close> yields a negative
  row. The script computes such an index for a date string whose month name is not in
  \<open>MON\<close>: \<^verbatim>\<open>indexOf\<close> yields \<open>-1\<close>, and \<^verbatim>\<open>Date.UTC(2019, -1, 1)\<close> is 1 December 2018,
  29 days before the start of the grid. The coordinate of \<open>-29\<close> is \<open>(-5, -1)\<close>, which
  reads back as \<open>-36\<close>.
\<close>

theorem fromColRow_toColRow_counterexample:
  "dayIndex (gridStartUTC 2019) (str ''Sat Abc 01 2019 00:00:00 GMT+0000 (UTC)'') = Inr (- 29)
   \<and> toColRow (- 29) = \<lparr> col = - 5, row = - 1 \<rparr>
   \<and> fromColRow (col (toColRow (- 29))) (row (toColRow (- 29))) = - 36"
  by code_simp

text \<open>
  A day index that is not negative is moved by seven days for every column of the shift,
  and the weekday of a day of the window is its index modulo 7.
\<close>

lemma newIdxFromWindow_nonneg: "0 \<le> i \<Longrightarrow> newIdxFromWindow s i = i + 7 * s"
  by (simp add: newIdxFromWindow_def Let_def toColRow_def fromColRow_def js_rem_nonneg)

lemma shifted_coordinate:
  assumes "0 \<le> i"
  shows "(i + 7 * s) div 7 = col (toColRow i) + s \<and> (i + 7 * s) mod 7 = row (toColRow i)"
  using assms by (simp add: toColRow_def js_rem_nonneg)

lemma getUTCDay_day: "getUTCDay (t + j * 86400000) = (getUTCDay t + j) mod 7"
proof -
  have "(t + j * 86400000) div 86400000 = t div 86400000 + j" by simp
  then show ?thesis by (simp add: getUTCDay_def msPerDay_def mod_simps add.commute add.left_commute)
qed

lemma getUTCDay_weekStartUTC: "getUTCDay (weekStartUTC t) = 0"
proof -
  have "weekStartUTC t = t + (- getUTCDay t) * 86400000" by (simp add: weekStartUTC_def Let_def)
  then have "getUTCDay (weekStartUTC t) = (getUTCDay t + (- getUTCDay t)) mod 7"
    by (simp only: getUTCDay_day)
  then show ?thesis by simp
qed

lemma getUTCDay_runWindowStart: "getUTCDay (runWindowStart now + j * 86400000) = j mod 7"
proof -
  have "runWindowStart now + j * 86400000 = weekStartUTC (runNowUTC now) + (j - 364) * 86400000"
    by (simp add: runWindowStart_def GRID_WEEKS_def algebra_simps)
  then have "getUTCDay (runWindowStart now + j * 86400000)
      = (getUTCDay (weekStartUTC (runNowUTC now)) + (j - 364)) mod 7"
    by (simp only: getUTCDay_day)
  also have "\<dots> = (j - 364) mod 7" by (simp add: getUTCDay_weekStartUTC)
  also have "\<dots> = j mod 7" by presburger
  finally show ?thesis .
qed

text \<open>
  Claim C1, as amended. For the anchor dates whose day index is not negative (the dates
  from 30 December 2018, the start of the 2019 grid, on), the mapping of \<^verbatim>\<open>remapOne\<close> is
  a rigid horizontal translation. In a run at the time \<open>now\<close>, with the shift
  \<open>runShift now idxs\<close> of the run, every two such dates with the day indices \<open>i1\<close>,
  \<open>i2\<close> are mapped to the days \<open>i1 + 7 * shift\<close> and \<open>i2 + 7 * shift\<close> of the window: the
  column of each (its week in the window) is the old column plus the one shift, the row
  is kept and is the weekday of the mapped day, and the difference of the columns is
  kept. Where the shifted column is not negative, this is also the coordinate that
  \<open>toColRow\<close> reads off the mapped day.
\<close>

theorem remap_rigid_translation:
  assumes "dayIndex (gridStartUTC 2019) d1 = Inr i1" and "dayIndex (gridStartUTC 2019) d2 = Inr i2"
    and "0 \<le> i1" and "0 \<le> i2"
  shows "runRemap now idxs d1
        = Inr (fmtUTCNoon (runWindowStart now + (i1 + 7 * runShift now idxs) * 86400000))
    \<and> runRemap now idxs d2
        = Inr (fmtUTCNoon (runWindowStart now + (i2 + 7 * runShift now idxs) * 86400000))
    \<and> newIdxFromWindow (runShift now idxs) i1 = i1 + 7 * runShift now idxs
    \<and> newIdxFromWindow (runShift now idxs) i2 = i2 + 7 * runShift now idxs
    \<and> (i1 + 7 * runShift now idxs) div 7 = col (toColRow i1) + runShift now idxs
    \<and> (i2 + 7 * runShift now idxs) div 7 = col (toColRow i2) + runShift now idxs
    \<and> (i1 + 7 * runShift now idxs) mod 7 = row (toColRow i1)
    \<and> (i2 + 7 * runShift now idxs) mod 7 = row (toColRow i2)
    \<and> getUTCDay (runWindowStart now + (i1 + 7 * runShift now idxs) * 86400000) = row (toColRow i1)
    \<and> getUTCDay (runWindowStart now + (i2 + 7 * runShift now idxs) * 86400000) = row (toColRow i2)
    \<and> (i2 + 7 * runShift now idxs) div 7 - (i1 + 7 * runShift now idxs) div 7
        = col (toColRow i2) - col (toColRow i1)
    \<and> (0 \<le> col (toColRow i1) + runShift now idxs \<longrightarrow>
         toColRow (newIdxFromWindow (runShift now idxs) i1)
           = \<lparr> col = col (toColRow i1) + runShift now idxs, row = row (toColRow i1) \<rparr>)
    \<and> (0 \<le> col (toColRow i2) + runShift now idxs \<longrightarrow>
         toColRow (newIdxFromWindow (runShift now idxs) i2)
           = \<lparr> col = col (toColRow i2) + runShift now idxs, row = row (toColRow i2) \<rparr>)"
proof -
  let ?s = "runShift now idxs"
  have n1: "newIdxFromWindow ?s i1 = i1 + 7 * ?s" and n2: "newIdxFromWindow ?s i2 = i2 + 7 * ?s"
    using assms(3,4) by (simp_all add: newIdxFromWindow_nonneg)
  have r1: "runRemap now idxs d1 = Inr (fmtUTCNoon (runWindowStart now + (i1 + 7 * ?s) * 86400000))"
    using assms(1) n1 by (simp add: runRemap_def remapOne_def Let_def)
  have r2: "runRemap now idxs d2 = Inr (fmtUTCNoon (runWindowStart now + (i2 + 7 * ?s) * 86400000))"
    using assms(2) n2 by (simp add: runRemap_def remapOne_def Let_def)
  note c1 = shifted_coordinate [OF assms(3), of ?s] and c2 = shifted_coordinate [OF assms(4), of ?s]
  have g1: "getUTCDay (runWindowStart now + (i1 + 7 * ?s) * 86400000) = row (toColRow i1)"
    using c1 by (simp only: getUTCDay_runWindowStart)
  have g2: "getUTCDay (runWindowStart now + (i2 + 7 * ?s) * 86400000) = row (toColRow i2)"
    using c2 by (simp only: getUTCDay_runWindowStart)
  have t1: "0 \<le> col (toColRow i1) + ?s \<longrightarrow> toColRow (newIdxFromWindow ?s i1)
      = \<lparr> col = col (toColRow i1) + ?s, row = row (toColRow i1) \<rparr>"
    using toColRow_newIdxFromWindow [OF assms(3)] by blast
  have t2: "0 \<le> col (toColRow i2) + ?s \<longrightarrow> toColRow (newIdxFromWindow ?s i2)
      = \<lparr> col = col (toColRow i2) + ?s, row = row (toColRow i2) \<rparr>"
    using toColRow_newIdxFromWindow [OF assms(4)] by blast
  have d: "(i2 + 7 * ?s) div 7 - (i1 + 7 * ?s) div 7 = col (toColRow i2) - col (toColRow i1)"
    using c1 c2 by linarith
  from r1 r2 n1 n2 c1 c2 g1 g2 d t1 t2 show ?thesis by blast
qed

theorem remap_rigid_translation_witness:
  "dayIndex (gridStartUTC 2019) (str ''Mon Jan 07 2019 00:00:00 GMT-0500 (EST)'') = Inr 8
   \<and> dayIndex (gridStartUTC 2019) (str ''Tue Jan 15 2019 00:00:00 GMT-0500 (EST)'') = Inr 16
   \<and> toColRow 8 = \<lparr> col = 1, row = 1 \<rparr> \<and> toColRow 16 = \<lparr> col = 2, row = 2 \<rparr>
   \<and> runShift 1793664005000 [8, 16] = 24
   \<and> runRemap 1793664005000 [8, 16] (str ''Mon Jan 07 2019 00:00:00 GMT-0500 (EST)'')
     = Inr (str ''Mon Apr 27 2026 12:00:00 GMT+0000 (UTC)'')
   \<and> runRemap 1793664005000 [8, 16] (str ''Tue Jan 15 2019 00:00:00 GMT-0500 (EST)'')
     = Inr (str ''Tue May 05 2026 12:00:00 GMT+0000 (UTC)'')
   \<and> newIdxFromWindow 24 8 = 176 \<and> newIdxFromWindow 24 16 = 184
   \<and> toColRow 176 = \<lparr> col = 25, row = 1 \<rparr> \<and> toColRow 184 = \<lparr> col = 26, row = 2 \<rparr>
   \<and> getUTCDay (runWindowStart 1793664005000 + 176 * 86400000) = 1
   \<and> getUTCDay (runWindowStart 1793664005000 + 184 * 86400000) = 2"
proof -
  have d1: "dayIndex (gridStartUTC 2019) (str ''Mon Jan 07 2019 00:00:00 GMT-0500 (EST)'') = Inr 8"
    by code_simp
  have d2: "dayIndex (gridStartUTC 2019) (str ''Tue Jan 15 2019 00:00:00 GMT-0500 (EST)'') = Inr 16"
    by code_simp
  have e: "toColRow 8 = \<lparr> col = 1, row = 1 \<rparr> \<and> toColRow 16 = \<lparr> col = 2, row = 2 \<rparr>
   \<and> runShift 1793664005000 [8, 16] = 24
   \<and> runRemap 1793664005000 [8, 16] (str ''Mon Jan 07 2019 00:00:00 GMT-0500 (EST)'')
     = Inr (str ''Mon Apr 27 2026 12:00:00 GMT+0000 (UTC)'')
   \<and> runRemap 1793664005000 [8, 16] (str ''Tue Jan 15 2019 00:00:00 GMT-0500 (EST)'')
     = Inr (str ''Tue May 05 2026 12:00:00 GMT+0000 (UTC)'')
   \<and> newIdxFromWindow 24 8 = 176 \<and> newIdxFromWindow 24 16 = 184
   \<and> toColRow 176 = \<lparr> col = 25, row = 1 \<rparr> \<and> toColRow 184 = \<lparr> col = 26, row = 2 \<rparr>
   \<and> getUTCDay (runWindowStart 1793664005000 + 176 * 86400000) = 1
   \<and> getUTCDay (runWindowStart 1793664005000 + 184 * 86400000) = 2"
    by code_simp
  show ?thesis
    using remap_rigid_translation [OF d1 d2, of 1793664005000 "[8, 16]"] d1 d2 e by simp
qed

text \<open>
  Claim C1 as stated fails on an anchor before the start of the grid. The script takes
  \<^verbatim>\<open>Sat Abc 01 2019\<close> for 1 December 2018, day index \<open>-29\<close>, with the coordinate
  \<open>(-5, -1)\<close>; \<^verbatim>\<open>Sat Jan 05 2019\<close> has the day index 6 and the coordinate \<open>(0, 6)\<close>. With
  the shift 28 of that run the two are mapped to the days 160 and 202 of the window,
  the coordinates \<open>(22, 6)\<close> and \<open>(28, 6)\<close>: the row \<open>-1\<close> has become 6, the column
  difference 5 has become 6, and two days that were 35 days apart are written 42 days
  apart (11 April and 23 May 2026).
\<close>

theorem remap_rigid_translation_counterexample:
  "anchors (sanitize (str ''git commit --date='' @ [39] @ str ''x'' @ [39] @ str '' -m '' @ [39]
         @ str ''Sat Abc 01 2019 00:00:00 GMT+0000 (UTC)'' @ [39, 10]
         @ str ''git commit --date='' @ [39] @ str ''x'' @ [39] @ str '' -m '' @ [39]
         @ str ''Sat Jan 05 2019 00:00:00 GMT+0000 (UTC)'' @ [39]))
       = [str ''Sat Abc 01 2019 00:00:00 GMT+0000 (UTC)'', str ''Sat Jan 05 2019 00:00:00 GMT+0000 (UTC)'']
   \<and> dayIndex (gridStartUTC 2019) (str ''Sat Abc 01 2019 00:00:00 GMT+0000 (UTC)'') = Inr (- 29)
   \<and> dayIndex (gridStartUTC 2019) (str ''Sat Jan 05 2019 00:00:00 GMT+0000 (UTC)'') = Inr 6
   \<and> toColRow (- 29) = \<lparr> col = - 5, row = - 1 \<rparr> \<and> toColRow 6 = \<lparr> col = 0, row = 6 \<rparr>
   \<and> runShift 1793664005000 [- 29, 6] = 28
   \<and> newIdxFromWindow 28 (- 29) = 160 \<and> newIdxFromWindow 28 6 = 202
   \<and> toColRow 160 = \<lparr> col = 22, row = 6 \<rparr> \<and> toColRow 202 = \<lparr> col = 28, row = 6 \<rparr>
   \<and> main 1793664005000 (str ''git commit --date='' @ [39] @ str ''x'' @ [39] @ str '' -m '' @ [39]
         @ str ''Sat Abc 01 2019 00:00:00 GMT+0000 (UTC)'' @ [39, 10]
         @ str ''git commit --date='' @ [39] @ str ''x'' @ [39] @ str '' -m '' @ [39]
         @ str ''Sat Jan 05 2019 00:00:00 GMT+0000 (UTC)'' @ [39])
       = Inr (str ''git commit --date='' @ [39] @ str ''Sat Apr 11 2026 12:00:00 GMT+0000 (UTC)''
              @ [39] @ str '' -m '' @ [39] @ str ''Sat Apr 11 2026 12:00:00 GMT+0000 (UTC)'' @ [39, 10]
              @ str ''git commit --date='' @ [39] @ str ''Sat May 23 2026 12:00:00 GMT+0000 (UTC)''
              @ [39] @ str '' -m '' @ [39] @ str ''Sat May 23 2026 12:00:00 GMT+0000 (UTC)'' @ [39])"
  by code_simp

subsection \<open>The future-avoidance loop\<close>

lemma avoidFuture_le: "avoidFuture colRows minCol todayRow s \<le> s"
proof (induction colRows minCol todayRow s rule: avoidFuture.induct)
  case (1 colRows minCol todayRow shiftCols)
  then show ?case
    by (subst avoidFuture.simps) (auto split: if_splits)
qed

lemma avoidFuture_lower: "min s (- minCol) \<le> avoidFuture colRows minCol todayRow s"
proof (induction colRows minCol todayRow s rule: avoidFuture.induct)
  case (1 colRows minCol todayRow shiftCols)
  then show ?case
    by (subst avoidFuture.simps) (auto split: if_splits)
qed

lemma avoidFuture_dom_all: "avoidFuture_dom (colRows, minCol, todayRow, s)"
proof (induction "nat (minCol + s)" arbitrary: s rule: less_induct)
  case less
  show ?case
    by (rule avoidFuture.domintros) (rule less, simp)
qed

lemma avoidFuture_stops:
  "\<not> (list_ex (violatesFuture (avoidFuture colRows minCol todayRow s) todayRow) colRows
       \<and> 0 < minCol + avoidFuture colRows minCol todayRow s)"
proof (induction colRows minCol todayRow s rule: avoidFuture.induct)
  case (1 colRows minCol todayRow shiftCols)
  show ?case
  proof (cases "list_ex (violatesFuture shiftCols todayRow) colRows \<and> minCol + shiftCols > 0")
    case True
    then have "avoidFuture colRows minCol todayRow shiftCols
        = avoidFuture colRows minCol todayRow (shiftCols - 1)"
      by (subst avoidFuture.simps) simp
    with 1 True show ?thesis by simp
  next
    case False
    then have "avoidFuture colRows minCol todayRow shiftCols = shiftCols"
      by (subst avoidFuture.simps) auto
    with False show ?thesis by simp
  qed
qed

lemma avoidFuture_steps:
  "avoidFuture colRows minCol todayRow s < t \<Longrightarrow> t \<le> s \<Longrightarrow>
     list_ex (violatesFuture t todayRow) colRows \<and> 0 < minCol + t"
proof (induction colRows minCol todayRow s rule: avoidFuture.induct)
  case (1 colRows minCol todayRow shiftCols)
  show ?case
  proof (cases "list_ex (violatesFuture shiftCols todayRow) colRows \<and> minCol + shiftCols > 0")
    case guard: True
    then have eq: "avoidFuture colRows minCol todayRow shiftCols
        = avoidFuture colRows minCol todayRow (shiftCols - 1)"
      by (subst avoidFuture.simps) simp
    show ?thesis
    proof (cases "t = shiftCols")
      case True
      with guard show ?thesis by simp
    next
      case False
      with 1 guard eq show ?thesis by simp
    qed
  next
    case False
    then have "avoidFuture colRows minCol todayRow shiftCols = shiftCols"
      by (subst avoidFuture.simps) auto
    with 1 show ?thesis by simp
  qed
qed

text \<open>
  Claim C2, as amended. Let \<open>s'\<close> be the shift after the future-avoidance pass that
  started from \<open>s\<close>. The pass has decremented the shift one by one: \<open>s' \<le> s\<close>, and at
  every shift \<open>t\<close> it left behind (\<open>s' < t \<le> s\<close>) some coordinate was in the rightmost
  column at a row after \<open>todayRow\<close> and the leftmost shifted column was positive. It
  stops when this is resolved or when the leftmost shifted column is no longer
  positive: if \<open>0 < minCol + s'\<close>, every coordinate mapped to the rightmost column has a
  row of at most \<open>todayRow\<close>.
\<close>

theorem avoidFuture_result:
  assumes "s' = avoidFuture colRows minCol todayRow s"
  shows "s' \<le> s
    \<and> (\<forall>t. s' < t \<and> t \<le> s \<longrightarrow> list_ex (violatesFuture t todayRow) colRows \<and> 0 < minCol + t)
    \<and> (0 < minCol + s' \<longrightarrow>
         (\<forall>p\<in>set colRows. col p + s' = rightmostCol \<longrightarrow> row p \<le> todayRow))"
proof -
  have "\<not> (list_ex (violatesFuture s' todayRow) colRows \<and> 0 < minCol + s')"
    unfolding assms by (rule avoidFuture_stops)
  then have "0 < minCol + s' \<longrightarrow>
      (\<forall>p\<in>set colRows. col p + s' = rightmostCol \<longrightarrow> row p \<le> todayRow)"
    by (auto simp: list_ex_iff violatesFuture_def)
  moreover have "s' \<le> s"
    unfolding assms by (rule avoidFuture_le)
  moreover have "\<forall>t. s' < t \<and> t \<le> s \<longrightarrow>
      list_ex (violatesFuture t todayRow) colRows \<and> 0 < minCol + t"
    unfolding assms using avoidFuture_steps by blast
  ultimately show ?thesis by blast
qed

theorem avoidFuture_result_witness:
  "avoidFuture [\<lparr>col = 0, row = 1\<rparr>, \<lparr>col = 3, row = 6\<rparr>, \<lparr>col = 4, row = 1\<rparr>] 0 2 49 = 48
   \<and> (48::int) \<le> 49
   \<and> list_ex (violatesFuture 49 2) [\<lparr>col = 0, row = 1\<rparr>, \<lparr>col = 3, row = 6\<rparr>, \<lparr>col = 4, row = 1\<rparr>]
   \<and> col \<lparr>col = 4, row = 1\<rparr> + 48 = rightmostCol \<and> row \<lparr>col = 4, row = 1\<rparr> \<le> 2"
proof -
  have e: "48 = avoidFuture [\<lparr>col = 0, row = 1\<rparr>, \<lparr>col = 3, row = 6\<rparr>, \<lparr>col = 4, row = 1\<rparr>] 0 2 49"
    by code_simp
  show ?thesis
    using avoidFuture_result [OF e] e
    by (simp add: rightmostCol_def GRID_WEEKS_def violatesFuture_def)
qed

text \<open>
  Claim C2 as stated fails when the pass is blocked by the left bound. A drawing from
  Saturday 5 January 2019 (day index 6, column 0) to Tuesday 31 December 2019 (day index
  366, column 52, row 2) fills the 53 columns; its shift is 0, the loop cannot move it,
  and on a Sunday (\<open>todayRow = 0\<close>) the coordinate \<open>(52, 2)\<close> stays in the rightmost
  column at a row after \<open>todayRow\<close>.
\<close>

theorem avoidFuture_blocked_counterexample:
  "dayIndex (gridStartUTC 2019) (str ''Sat Jan 05 2019 00:00:00 GMT+0000 (UTC)'') = Inr 6
   \<and> dayIndex (gridStartUTC 2019) (str ''Tue Dec 31 2019 00:00:00 GMT+0000 (UTC)'') = Inr 366
   \<and> toColRow 366 = \<lparr> col = 52, row = 2 \<rparr>
   \<and> gridShift [toColRow 6, toColRow 366] 0 = 0
   \<and> col (toColRow 366) + gridShift [toColRow 6, toColRow 366] 0 = rightmostCol
   \<and> 0 < row (toColRow 366)"
  by code_simp

text \<open>
  Claim C10. The future-avoidance loop terminates from every state: every argument is
  in the domain of the recursion that models it (the measure is \<open>minCol + shiftCols\<close>,
  positive by the guard and decreased by each round). The loop only decreases the
  shift, and never below the smaller of its start value and \<open>- minCol\<close>.
\<close>

theorem avoidFuture_terminates:
  "avoidFuture_dom (colRows, minCol, todayRow, s)
   \<and> avoidFuture colRows minCol todayRow s \<le> s
   \<and> min s (- minCol) \<le> avoidFuture colRows minCol todayRow s"
  by (simp add: avoidFuture_dom_all avoidFuture_le avoidFuture_lower)

theorem avoidFuture_terminates_witness:
  "avoidFuture_dom ([\<lparr>col = 0, row = 1\<rparr>, \<lparr>col = 3, row = 6\<rparr>], 0, 2, 49)
   \<and> avoidFuture [\<lparr>col = 0, row = 1\<rparr>, \<lparr>col = 3, row = 6\<rparr>] 0 2 49 = 48
   \<and> min 49 (- 0) \<le> (48::int)"
proof -
  have e: "avoidFuture [\<lparr>col = 0, row = 1\<rparr>, \<lparr>col = 3, row = 6\<rparr>] 0 2 49 = 48"
    by code_simp
  show ?thesis
    using avoidFuture_terminates [of "[\<lparr>col = 0, row = 1\<rparr>, \<lparr>col = 3, row = 6\<rparr>]" 0 2 49] e
    by simp
qed

subsection \<open>The clamp\<close>

lemma clampShift_fits:
  assumes "maxCol - minCol + 1 \<le> GRID_WEEKS" and "minCol \<le> c" and "c \<le> maxCol"
  shows "0 \<le> c + clampShift minCol maxCol (centerShift minCol (maxCol - minCol + 1))
    \<and> c + clampShift minCol maxCol (centerShift minCol (maxCol - minCol + 1)) \<le> rightmostCol"
  using assms
  by (auto simp: clampShift_def clampLeft_def clampRight_def centerShift_def rightmostCol_def
      GRID_WEEKS_def)

lemma clampShift_oversized:
  assumes "GRID_WEEKS < maxCol - minCol + 1"
  shows "maxCol + clampShift minCol maxCol (centerShift minCol (maxCol - minCol + 1)) = rightmostCol
    \<and> minCol + clampShift minCol maxCol (centerShift minCol (maxCol - minCol + 1)) < 0"
  using assms
  by (auto simp: clampShift_def clampLeft_def clampRight_def centerShift_def rightmostCol_def
      GRID_WEEKS_def)

text \<open>
  A drawing that fits the window stays inside it: after the clamp and the
  future-avoidance loop every mapped column lies between 0 and \<open>rightmostCol\<close>.
\<close>

lemma gridShift_bounds:
  assumes "colRows \<noteq> []"
    and "Max (set (map col colRows)) - Min (set (map col colRows)) + 1 \<le> GRID_WEEKS"
    and "p \<in> set colRows"
  shows "0 \<le> col p + gridShift colRows todayRow
    \<and> col p + gridShift colRows todayRow \<le> rightmostCol"
proof -
  let ?minCol = "Min (set (map col colRows))" and ?maxCol = "Max (set (map col colRows))"
  let ?s = "clampShift ?minCol ?maxCol (centerShift ?minCol (?maxCol - ?minCol + 1))"
  from assms(3) have lo: "?minCol \<le> col p" and hi: "col p \<le> ?maxCol" by simp_all
  have mm: "?minCol \<le> ?maxCol" using lo hi by linarith
  from clampShift_fits [OF assms(2) order_refl mm] have left: "0 \<le> ?minCol + ?s" by simp
  from clampShift_fits [OF assms(2) lo hi] have right: "col p + ?s \<le> rightmostCol" by simp
  have g: "gridShift colRows todayRow = avoidFuture colRows ?minCol todayRow ?s"
    by (simp add: gridShift_def Let_def)
  from avoidFuture_le [of colRows ?minCol todayRow ?s] right g
  have "col p + gridShift colRows todayRow \<le> rightmostCol" by linarith
  moreover from avoidFuture_lower [of ?s ?minCol colRows todayRow] left g lo
  have "0 \<le> col p + gridShift colRows todayRow" by linarith
  ultimately show ?thesis by simp
qed

text \<open>
  The anchors of a drawing that fits the window, none before the start of the grid, are
  translated by the shift that the script computes.
\<close>

lemma anchors_translated:
  assumes "\<forall>i\<in>set idxs. 0 \<le> i"
    and "Max (set (map col (map toColRow idxs))) - Min (set (map col (map toColRow idxs))) + 1
          \<le> GRID_WEEKS"
    and "i \<in> set idxs"
  shows "toColRow (newIdxFromWindow (gridShift (map toColRow idxs) todayRow) i)
    = \<lparr> col = col (toColRow i) + gridShift (map toColRow idxs) todayRow, row = row (toColRow i) \<rparr>"
proof -
  from assms(3) have ne: "map toColRow idxs \<noteq> []" and p: "toColRow i \<in> set (map toColRow idxs)"
    by auto
  from gridShift_bounds [OF ne assms(2) p]
  have "0 \<le> col (toColRow i) + gridShift (map toColRow idxs) todayRow" by simp
  moreover from assms(1,3) have "0 \<le> i" by blast
  ultimately show ?thesis by (rule toColRow_newIdxFromWindow [rotated])
qed

text \<open>
  Claim C3, on a drawing wider than the window. The anchors Tuesday 1 January 2019 (day
  index 2, column 0) and \<^verbatim>\<open>Dec 36 2019\<close> (day index 371, column 53) span 54 columns.
  After the two clamp statements the shift is \<open>-1\<close>: the rightmost mapped column is
  \<open>rightmostCol\<close> and the leftmost mapped column is \<open>-1\<close>. The statement that runs
  last, the right-bound one, is the one that holds; the first anchor is mapped to the
  day index \<open>-5\<close>, before the start of the window.
\<close>

theorem clampShift_oversized_drawing:
  "dayIndex (gridStartUTC 2019) (str ''Tue Jan 01 2019 00:00:00 GMT+0000 (UTC)'') = Inr 2
   \<and> dayIndex (gridStartUTC 2019) (str ''Sun Dec 36 2019 00:00:00 GMT+0000 (UTC)'') = Inr 371
   \<and> col (toColRow 2) = 0 \<and> col (toColRow 371) = 53
   \<and> clampShift 0 53 (centerShift 0 54) = - 1
   \<and> 0 + clampShift 0 53 (centerShift 0 54) < 0
   \<and> 53 + clampShift 0 53 (centerShift 0 54) = rightmostCol
   \<and> gridShift [toColRow 2, toColRow 371] 3 = - 1
   \<and> newIdxFromWindow (gridShift [toColRow 2, toColRow 371] 3) 2 = - 5"
  by code_simp

section \<open>Properties of the script\<close>

subsection \<open>Matching\<close>

lemma matchAtom_suffix: "matchAtom a cs = Some r \<Longrightarrow> \<exists>p. cs = p @ r"
proof (induction a cs rule: matchAtom.induct)
  case (1 w cs)
  then have "r = drop (length w) cs" by (simp split: if_splits)
  then have "cs = take (length w) cs @ r" by simp
  then show ?case ..
next
  case (4 P cs)
  then have "cs = takeWhile P cs @ r" by auto
  then show ?case ..
next
  case (6 P c cs)
  then have "c # cs = (c # takeWhile P cs) @ r" by (auto split: if_splits)
  then show ?case ..
qed (auto split: if_splits)

lemma matchSeq_suffix: "matchSeq as cs = Some r \<Longrightarrow> \<exists>p. cs = p @ r"
proof (induction as arbitrary: cs)
  case Nil
  then show ?case by simp
next
  case (Cons a as)
  from Cons.prems obtain r1 where a: "matchAtom a cs = Some r1" and s: "matchSeq as r1 = Some r"
    by (auto split: option.splits)
  from matchAtom_suffix [OF a] Cons.IH [OF s] show ?case by auto
qed

lemma matchGroups_concat:
  "matchGroups gs cs = Some (caps, r) \<Longrightarrow> cs = concat caps @ r \<and> length caps = length gs"
proof (induction gs arbitrary: cs caps)
  case Nil
  then show ?case by simp
next
  case (Cons g gs)
  from Cons.prems obtain r1 caps' where g: "matchSeq g cs = Some r1"
    and gs: "matchGroups gs r1 = Some (caps', r)"
    and caps: "caps = take (length cs - length r1) cs # caps'"
    by (auto split: option.splits)
  from matchSeq_suffix [OF g] obtain p where p: "cs = p @ r1" by blast
  from Cons.IH [OF gs] have "r1 = concat caps' @ r" and "length caps' = length gs" by simp_all
  with p caps show ?case by simp
qed

lemma matchSeq_Lit_nonempty:
  assumes "matchSeq (Lit w # as) cs = Some r" and "w \<noteq> []"
  shows "length r < length cs"
proof -
  from assms(1) have t: "take (length w) cs = w" and s: "matchSeq as (drop (length w) cs) = Some r"
    by (auto split: if_splits option.splits)
  from matchSeq_suffix [OF s] obtain p where "drop (length w) cs = p @ r" by blast
  then have "length (drop (length w) cs) = length p + length r" by simp
  then have "length r \<le> length cs - length w" by simp
  moreover from t have "length (take (length w) cs) = length w" by simp
  with assms(2) have "0 < length w \<and> length w \<le> length cs" by simp
  ultimately show ?thesis by linarith
qed

lemma rebuild_skip:
  "rebuild f (fst (skip c sc)) (snd (skip c sc))
     = (case rebuild f (fst sc) (snd sc) of Inl e \<Rightarrow> Inl e | Inr out \<Rightarrow> Inr (c # out))"
proof (cases sc)
  case (Pair segs tail)
  show ?thesis
  proof (cases segs)
    case Nil
    with Pair show ?thesis by simp
  next
    case (Cons p segs')
    obtain pre g where "p = (pre, g)" by (cases p)
    with Pair Cons show ?thesis by (simp split: sum.splits)
  qed
qed

lemma jsReplace_rebuild:
  "jsReplace re f prev cs = rebuild f (fst (scan re prev cs)) (snd (scan re prev cs))"
proof (induction re f prev cs rule: jsReplace.induct)
  case (1 re f prev)
  show ?case by (simp split: option.splits sum.splits)
next
  case (2 re f prev c cs)
  show ?case
  proof (cases "re prev (c # cs)")
    case None
    with 2(1) show ?thesis by (simp add: rebuild_skip)
  next
    case (Some g)
    show ?thesis
    proof (cases "concat g = []")
      case True
      have s: "scan re prev (c # cs)
          = (([], g) # fst (skip c (scan re (Some c) cs)), snd (skip c (scan re (Some c) cs)))"
        using Some True by (simp add: case_prod_unfold del: concat_eq_Nil_conv)
      have j: "jsReplace re f prev (c # cs)
          = (case f g of Inl e \<Rightarrow> Inl e
             | Inr r \<Rightarrow> (case jsReplace re f (Some c) cs of
                          Inl e \<Rightarrow> Inl e | Inr out \<Rightarrow> Inr (r @ c # out)))"
        using Some True by (simp del: concat_eq_Nil_conv split: sum.splits)
      show ?thesis
      proof (cases "f g")
        case (Inl e)
        with s j show ?thesis by simp
      next
        case (Inr r)
        from 2(2) [OF Some Inr True] s j Inr show ?thesis
          by (simp add: rebuild_skip split: sum.splits)
      qed
    next
      case False
      let ?sc = "scan re (Some (last (concat g))) (drop (length (concat g) - 1) cs)"
      have s: "scan re prev (c # cs) = (([], g) # fst ?sc, snd ?sc)"
        using Some False by (simp add: case_prod_unfold del: concat_eq_Nil_conv)
      have j: "jsReplace re f prev (c # cs)
          = (case f g of Inl e \<Rightarrow> Inl e
             | Inr r \<Rightarrow> (case jsReplace re f (Some (last (concat g)))
                                 (drop (length (concat g) - 1) cs) of
                          Inl e \<Rightarrow> Inl e | Inr out \<Rightarrow> Inr (r @ out)))"
        using Some False by (simp del: concat_eq_Nil_conv split: sum.splits)
      show ?thesis
      proof (cases "f g")
        case (Inl e)
        with s j show ?thesis by simp
      next
        case (Inr r)
        from 2(3) [OF Some Inr False] s j Inr show ?thesis
          by (simp split: sum.splits)
      qed
    qed
  qed
qed

lemma rebuild_ok:
  "\<forall>p\<in>set segs. f (snd p) = Inr (h (snd p)) \<Longrightarrow>
     rebuild f segs tail = Inr (concat (map (\<lambda>p. fst p @ h (snd p)) segs) @ tail)"
  by (induction segs) (auto)

lemma rebuild_fails:
  "g \<in> snd ` set segs \<Longrightarrow> f g = Inl e \<Longrightarrow>
     \<exists>g' e'. g' \<in> snd ` set segs \<and> f g' = Inl e' \<and> rebuild f segs tail = Inl e'"
proof (induction segs)
  case Nil
  then show ?case by simp
next
  case (Cons p segs)
  obtain pre g0 where p: "p = (pre, g0)" by (cases p)
  show ?case
  proof (cases "f g0")
    case (Inl e0)
    with p have "g0 \<in> snd ` set (p # segs) \<and> f g0 = Inl e0 \<and> rebuild f (p # segs) tail = Inl e0"
      by simp
    then show ?thesis by blast
  next
    case (Inr r)
    with Cons.prems p have "g \<in> snd ` set segs" by auto
    from Cons.IH [OF this Cons.prems(2)] obtain g' e'
      where "g' \<in> snd ` set segs" and "f g' = Inl e'" and "rebuild f segs tail = Inl e'"
      by blast
    with p Inr have "g' \<in> snd ` set (p # segs) \<and> f g' = Inl e' \<and> rebuild f (p # segs) tail = Inl e'"
      by simp
    then show ?thesis by blast
  qed
qed

lemma rebuild_Inl:
  "rebuild f segs tail = Inl e \<Longrightarrow> \<exists>p\<in>set segs. f (snd p) = Inl e"
  by (induction segs) (auto split: sum.splits)

lemma skip_set: "snd ` set (fst (skip c sc)) = snd ` set (fst sc)"
proof (cases sc)
  case (Pair segs tail)
  then show ?thesis by (cases segs) auto
qed

lemma scan_matches:
  "g \<in> snd ` set (fst (scan re prev cs)) \<Longrightarrow> \<exists>prev' cs'. re prev' cs' = Some g"
proof (induction re prev cs rule: scan.induct)
  case (1 re prev)
  then show ?case by (auto split: option.splits)
next
  case (2 re prev c cs)
  show ?case
  proof (cases "re prev (c # cs)")
    case None
    with 2(4) have "g \<in> snd ` set (fst (skip c (scan re (Some c) cs)))" by simp
    then have "g \<in> snd ` set (fst (scan re (Some c) cs))" by (simp only: skip_set)
    with 2(1) [OF None] show ?thesis .
  next
    case (Some g0)
    show ?thesis
    proof (cases "concat g0 = []")
      case True
      have s: "scan re prev (c # cs)
          = (([], g0) # fst (skip c (scan re (Some c) cs)), snd (skip c (scan re (Some c) cs)))"
        using Some True by (simp add: case_prod_unfold del: concat_eq_Nil_conv)
      with 2(4) have "g = g0 \<or> g \<in> snd ` set (fst (skip c (scan re (Some c) cs)))"
        by auto
      then show ?thesis
      proof
        assume "g = g0" with Some show ?thesis by blast
      next
        assume "g \<in> snd ` set (fst (skip c (scan re (Some c) cs)))"
        then have "g \<in> snd ` set (fst (scan re (Some c) cs))" by (simp only: skip_set)
        with 2(2) [OF Some True] show ?thesis .
      qed
    next
      case False
      let ?sc = "scan re (Some (last (concat g0))) (drop (length (concat g0) - 1) cs)"
      have s: "scan re prev (c # cs) = (([], g0) # fst ?sc, snd ?sc)"
        using Some False by (simp add: case_prod_unfold del: concat_eq_Nil_conv)
      with 2(4) have "g = g0 \<or> g \<in> snd ` set (fst ?sc)" by auto
      then show ?thesis
      proof
        assume "g = g0" with Some show ?thesis by blast
      next
        assume "g \<in> snd ` set (fst ?sc)"
        with 2(3) [OF Some False] show ?thesis .
      qed
    qed
  qed
qed

lemma skip_text:
  "concat (map (\<lambda>p. fst p @ concat (snd p)) (fst (skip c sc))) @ snd (skip c sc)
     = c # concat (map (\<lambda>p. fst p @ concat (snd p)) (fst sc)) @ snd sc"
proof (cases sc)
  case (Pair segs tail)
  then show ?thesis by (cases segs) auto
qed

lemma scan_text:
  assumes "\<And>prev cs g. re prev cs = Some g \<Longrightarrow> \<exists>r. cs = concat g @ r"
  shows "concat (map (\<lambda>p. fst p @ concat (snd p)) (fst (scan re prev cs))) @ snd (scan re prev cs) = cs"
  using assms
proof (induction re prev cs rule: scan.induct)
  case (1 re prev)
  show ?case
  proof (cases "re prev []")
    case None
    then show ?thesis by simp
  next
    case (Some g)
    from 1 [OF Some] have "concat g = []" by simp
    with Some show ?thesis by (simp del: concat_eq_Nil_conv)
  qed
next
  case (2 re prev c cs)
  note pre = 2(4)
  show ?case
  proof (cases "re prev (c # cs)")
    case None
    with 2(1) [OF None pre] show ?thesis by (simp add: skip_text)
  next
    case (Some g)
    show ?thesis
    proof (cases "concat g = []")
      case True
      have s: "scan re prev (c # cs)
          = (([], g) # fst (skip c (scan re (Some c) cs)), snd (skip c (scan re (Some c) cs)))"
        using Some True by (simp add: case_prod_unfold del: concat_eq_Nil_conv)
      from 2(2) [OF Some True pre] True show ?thesis
        unfolding s by (simp add: skip_text del: concat_eq_Nil_conv)
    next
      case False
      let ?sc = "scan re (Some (last (concat g))) (drop (length (concat g) - 1) cs)"
      have s: "scan re prev (c # cs) = (([], g) # fst ?sc, snd ?sc)"
        using Some False by (simp add: case_prod_unfold del: concat_eq_Nil_conv)
      from pre [OF Some] obtain r where r: "c # cs = concat g @ r" by blast
      with False obtain m where m: "concat g = c # m" by (cases "concat g") auto
      with r have "cs = m @ r" by simp
      with m have d: "drop (length (concat g) - 1) cs = r" by simp
      from 2(3) [OF Some False pre] show ?thesis
        unfolding s d using r by (simp del: concat_eq_Nil_conv)
    qed
  qed
qed

text \<open>
  When no match is empty, the matches of the scan are those that the loop of \<^verbatim>\<open>exec\<close>
  collects.
\<close>

lemma skip_matches: "map snd (fst (skip c sc)) = map snd (fst sc)"
proof (cases sc)
  case (Pair segs tail)
  then show ?thesis by (cases segs) auto
qed

lemma scan_execAll:
  assumes "\<And>prev cs g. re prev cs = Some g \<Longrightarrow> concat g \<noteq> [] \<and> (\<exists>r. cs = concat g @ r)"
  shows "map snd (fst (scan re prev cs)) = execAll re prev cs"
  using assms
proof (induction re prev cs rule: scan.induct)
  case (1 re prev)
  show ?case
  proof (cases "re prev []")
    case None
    then show ?thesis by simp
  next
    case (Some g)
    from 1 [OF Some] have False by auto
    then show ?thesis ..
  qed
next
  case (2 re prev c cs)
  note pre = 2(4)
  show ?case
  proof (cases "re prev (c # cs)")
    case None
    with 2(1) [OF None pre] show ?thesis by (simp add: skip_matches)
  next
    case (Some g)
    from pre [OF Some] have False: "concat g \<noteq> []" by blast
    let ?sc = "scan re (Some (last (concat g))) (drop (length (concat g) - 1) cs)"
    have s: "scan re prev (c # cs) = (([], g) # fst ?sc, snd ?sc)"
      using Some False by (simp add: case_prod_unfold del: concat_eq_Nil_conv)
    from 2(3) [OF Some False pre] Some show ?thesis
      unfolding s by simp
  qed
qed

lemma mapE_Inl: "mapE f xs = Inl e \<Longrightarrow> \<exists>x\<in>set xs. f x = Inl e"
  by (induction xs arbitrary: e) (auto split: sum.splits)

lemma mapE_fails:
  "x \<in> set xs \<Longrightarrow> f x = Inl e \<Longrightarrow> \<exists>x' e'. x' \<in> set xs \<and> f x' = Inl e' \<and> mapE f xs = Inl e'"
  by (induction xs) (auto split: sum.splits)

lemma matchSeq_append:
  "matchSeq (as @ bs) cs = (case matchSeq as cs of None \<Rightarrow> None | Some r \<Rightarrow> matchSeq bs r)"
  by (induction as arbitrary: cs) (auto split: option.splits)

lemma matchSeq_first_Lit:
  assumes "matchSeq (Lit w # as) cs = Some r"
  shows "\<exists>q. cs = w @ q @ r"
proof -
  from assms have t: "take (length w) cs = w" and s: "matchSeq as (drop (length w) cs) = Some r"
    by (auto split: if_splits option.splits)
  from matchSeq_suffix [OF s] obtain q where "drop (length w) cs = q @ r" by blast
  with t have "cs = w @ q @ r" by (metis append_take_drop_id)
  then show ?thesis ..
qed

lemma matchSeq_last_Lit:
  assumes "matchSeq (as @ [Lit w]) cs = Some r"
  shows "\<exists>p. cs = p @ w @ r"
proof -
  from assms obtain r1 where a: "matchSeq as cs = Some r1" and l: "matchSeq [Lit w] r1 = Some r"
    by (auto simp: matchSeq_append split: option.splits)
  from l have "take (length w) r1 = w" and "r = drop (length w) r1"
    by (auto split: if_splits)
  then have "r1 = w @ r" by (metis append_take_drop_id)
  with matchSeq_suffix [OF a] show ?thesis by auto
qed

lemma matchSeq_first_last_Lit:
  assumes "matchSeq (Lit w # (as @ [Lit v])) cs = Some r"
  shows "\<exists>q. cs = w @ q @ v @ r"
proof -
  from assms have t: "take (length w) cs = w"
    and s: "matchSeq (as @ [Lit v]) (drop (length w) cs) = Some r"
    by (auto split: if_splits option.splits)
  from matchSeq_last_Lit [OF s] obtain q where "drop (length w) cs = q @ v @ r" by blast
  with t have "cs = w @ q @ v @ r" by (metis append_take_drop_id)
  then show ?thesis ..
qed

lemma take_consumed: "cs = p @ r \<Longrightarrow> take (length cs - length r) cs = p"
  by simp

lemma matchGroups_Cons:
  "matchGroups (g # gs) cs = Some (caps, r) \<Longrightarrow>
     \<exists>r1 caps'. matchSeq g cs = Some r1 \<and> matchGroups gs r1 = Some (caps', r)
       \<and> caps = take (length cs - length r1) cs # caps'"
  by (auto split: option.splits)

lemma commitGroups_fields:
  assumes "matchGroups commitGroups cs = Some (g, rest)"
  shows "\<exists>h a u d. g = [h @ str ''--date='' @ [39], a, 39 # u @ [39], d, [39]]
           \<and> cs = concat g @ rest"
proof -
  from assms obtain r1 c1 where s1: "matchSeq commitHead cs = Some r1"
    and g1: "matchGroups [[Star notQuote], commitMid, FULL_2019, [Lit [39]]] r1 = Some (c1, rest)"
    and e1: "g = take (length cs - length r1) cs # c1"
    unfolding commitGroups_def by (blast dest: matchGroups_Cons)
  from g1 obtain r2 c2 where s2: "matchSeq [Star notQuote] r1 = Some r2"
    and g2: "matchGroups [commitMid, FULL_2019, [Lit [39]]] r2 = Some (c2, rest)"
    and e2: "c1 = take (length r1 - length r2) r1 # c2"
    by (blast dest: matchGroups_Cons)
  from g2 obtain r3 c3 where s3: "matchSeq commitMid r2 = Some r3"
    and g3: "matchGroups [FULL_2019, [Lit [39]]] r3 = Some (c3, rest)"
    and e3: "c2 = take (length r2 - length r3) r2 # c3"
    by (blast dest: matchGroups_Cons)
  from g3 obtain r4 c4 where s4: "matchSeq FULL_2019 r3 = Some r4"
    and g4: "matchGroups [[Lit [39]]] r4 = Some (c4, rest)"
    and e4: "c3 = take (length r3 - length r4) r3 # c4"
    by (blast dest: matchGroups_Cons)
  from g4 obtain r5 c5 where s5: "matchSeq [Lit [39]] r4 = Some r5"
    and g5: "matchGroups [] r5 = Some (c5, rest)"
    and e5: "c4 = take (length r4 - length r5) r4 # c5"
    by (blast dest: matchGroups_Cons)
  from g5 have c5: "c5 = []" and r5: "r5 = rest" by simp_all
  have "commitHead = [Lit (str ''git''), Plus isWhiteSpace, Lit (str ''commit''), Plus isWhiteSpace]
      @ [Lit (str ''--date='' @ [39])]"
    by (simp add: commitHead_def)
  with s1 obtain h where h: "cs = h @ (str ''--date='' @ [39]) @ r1"
    using matchSeq_last_Lit by metis
  have "commitMid = Lit [39] # ([Plus isWhiteSpace, Lit (str ''-m''), Plus isWhiteSpace] @ [Lit [39]])"
    by (simp add: commitMid_def)
  with s3 have "matchSeq (Lit [39] # ([Plus isWhiteSpace, Lit (str ''-m''), Plus isWhiteSpace]
      @ [Lit [39]])) r2 = Some r3"
    by simp
  from matchSeq_first_last_Lit [OF this] obtain u where "r2 = [39] @ u @ [39] @ r3" by blast
  then have u: "r2 = (39 # u @ [39]) @ r3" by simp
  from s5 have q: "r4 = [39] @ r5" by (cases r4) (auto split: if_splits)
  from h have t1: "take (length cs - length r1) cs = h @ str ''--date='' @ [39]"
    by (simp add: take_consumed)
  from u have t3: "take (length r2 - length r3) r2 = 39 # u @ [39]"
    by (rule take_consumed)
  from q have t5: "take (length r4 - length r5) r4 = [39]"
    by (rule take_consumed)
  from e1 e2 e3 e4 e5 c5 t1 t3 t5
  have "g = [h @ str ''--date='' @ [39], take (length r1 - length r2) r1, 39 # u @ [39],
             take (length r3 - length r4) r3, [39]]"
    by simp
  moreover from matchGroups_concat [OF assms] have "cs = concat g @ rest" by simp
  ultimately show ?thesis by blast
qed

lemma fmtUTCNoon_suffix: "\<exists>d. fmtUTCNoon t = d @ str '' 12:00:00 GMT+0000 (UTC)''"
  by (simp add: fmtUTCNoon_def Let_def)

subsection \<open>Parsing\<close>

lemma parseFullDayUTC_fails:
  "matchGroups dateHead s = None \<Longrightarrow> parseFullDayUTC s = Inl (Error (str ''Bad date: '' @ s))"
  by (simp add: parseFullDayUTC_def)

lemma parseFullDayUTC_succeeds:
  "matchGroups dateHead s \<noteq> None \<Longrightarrow> \<exists>t. parseFullDayUTC s = Inr t"
  by (auto simp: parseFullDayUTC_def Let_def)

lemma parseFullDayUTC_value:
  "matchGroups dateHead s = Some (m, r) \<Longrightarrow>
     parseFullDayUTC s = Inr (dateUTC (toNumber (m ! 6)) (indexOf MON (m ! 2)) (toNumber (m ! 4)))"
  by (simp add: parseFullDayUTC_def Let_def)

lemma indexOf_notin: "x \<notin> set xs \<Longrightarrow> indexOf xs x = - 1"
  by (induction xs) (auto simp: Let_def)

lemma dateUTC_month_before:
  "dateUTC y (- 1) d = makeDay ((if 0 \<le> y \<and> y \<le> 99 then 1900 + y else y) - 1) 11 d * msPerDay"
  by (simp add: dateUTC_def makeDay_def Let_def)

lemma parseFullDayUTC_unknown_month:
  assumes "matchGroups dateHead s = Some (m, r)" and "m ! 2 \<notin> set MON"
  shows "parseFullDayUTC s
    = Inr (makeDay ((if 0 \<le> toNumber (m ! 6) \<and> toNumber (m ! 6) \<le> 99
                     then 1900 + toNumber (m ! 6) else toNumber (m ! 6)) - 1) 11
             (toNumber (m ! 4)) * msPerDay)"
  using parseFullDayUTC_value [OF assms(1)] indexOf_notin [OF assms(2)]
  by (simp only: dateUTC_month_before)

lemma dayIndex_Inl: "dayIndex st s = Inl e \<Longrightarrow> e = Error (str ''Bad date: '' @ s)"
  by (auto simp: dayIndex_def parseFullDayUTC_def Let_def split: sum.splits option.splits)

lemma remapOne_fails:
  "matchGroups dateHead s = None \<Longrightarrow>
     remapOne st sh ws s = Inl (Error (str ''Bad date: '' @ s))"
  by (simp add: remapOne_def dayIndex_def parseFullDayUTC_fails)

text \<open>
  A date of the year 2019 whose month name is in the table has a day index that is not
  negative: the grid starts on 30 December 2018.
\<close>

lemma indexOf_range: "x \<in> set xs \<Longrightarrow> 0 \<le> indexOf xs x \<and> indexOf xs x < int (length xs)"
  by (induction xs) (auto simp: Let_def)

lemma monthStart_nonneg:
  assumes "0 \<le> mn" and "mn < 12"
  shows "0 \<le> monthStart mn leap"
proof -
  let ?t = "[0, 31, 59, 90, 120, 151, 181, 212, 243, 273, 304, 334] :: int list"
  from assms have "nat mn < length ?t" by simp
  then have "?t ! nat mn \<in> set ?t" by (rule nth_mem)
  then have "0 \<le> ?t ! nat mn" by auto
  then show ?thesis by (simp add: monthStart_def)
qed

lemma matchSeq_two_digits:
  assumes "matchSeq [Cls isDigit, Cls isDigit] cs = Some r"
  shows "\<exists>a b. cs = a # b # r \<and> isDigit a \<and> isDigit b"
proof -
  from assms obtain a cs' where cs: "cs = a # cs'" and a: "isDigit a"
    and s: "matchSeq [Cls isDigit] cs' = Some r"
    by (cases cs) (auto split: if_splits)
  from s obtain b where "cs' = b # r" and "isDigit b"
    by (cases cs') (auto split: if_splits)
  with cs a show ?thesis by blast
qed

lemma dateHead_day:
  assumes "matchGroups dateHead s = Some (m, r)"
  shows "\<exists>a b. m ! 4 = [a, b] \<and> isDigit a \<and> isDigit b"
proof -
  from assms obtain r0 c0 where g0: "matchGroups (tl dateHead) r0 = Some (c0, r)"
    and e0: "m = take (length s - length r0) s # c0"
    unfolding dateHead_def list.sel by (blast dest: matchGroups_Cons)
  from g0 obtain r1 c1 where g1: "matchGroups (tl (tl dateHead)) r1 = Some (c1, r)"
    and e1: "c0 = take (length r0 - length r1) r0 # c1"
    unfolding dateHead_def list.sel by (blast dest: matchGroups_Cons)
  from g1 obtain r2 c2 where g2: "matchGroups (tl (tl (tl dateHead))) r2 = Some (c2, r)"
    and e2: "c1 = take (length r1 - length r2) r1 # c2"
    unfolding dateHead_def list.sel by (blast dest: matchGroups_Cons)
  from g2 obtain r3 c3 where g3: "matchGroups (tl (tl (tl (tl dateHead)))) r3 = Some (c3, r)"
    and e3: "c2 = take (length r2 - length r3) r2 # c3"
    unfolding dateHead_def list.sel by (blast dest: matchGroups_Cons)
  from g3 obtain r4 c4 where s4: "matchSeq [Cls isDigit, Cls isDigit] r3 = Some r4"
    and e4: "c3 = take (length r3 - length r4) r3 # c4"
    unfolding dateHead_def list.sel by (blast dest: matchGroups_Cons)
  from matchSeq_two_digits [OF s4] obtain a b where r3: "r3 = a # b # r4"
    and d: "isDigit a" "isDigit b"
    by blast
  from r3 have "take (length r3 - length r4) r3 = [a, b]" by simp
  with e0 e1 e2 e3 e4 have "m ! 4 = [a, b]" by simp
  with d show ?thesis by blast
qed

lemma dayIndex_2019_nonneg:
  assumes "matchGroups dateHead d = Some (m, r)" and "m ! 2 \<in> set MON"
    and "toNumber (m ! 6) = 2019"
  shows "\<exists>i. dayIndex (gridStartUTC 2019) d = Inr i \<and> 0 \<le> i"
proof -
  from dateHead_day [OF assms(1)] obtain a b where "m ! 4 = [a, b]" and "isDigit a" and "isDigit b"
    by blast
  then have dd: "0 \<le> toNumber (m ! 4)" by (simp add: toNumber_def isDigit_def)
  from indexOf_range [OF assms(2)] have mi: "0 \<le> indexOf MON (m ! 2)" "indexOf MON (m ! 2) < 12"
    by (simp_all add: MON_def)
  from mi have ms: "0 \<le> monthStart (indexOf MON (m ! 2)) False" by (rule monthStart_nonneg)
  have g: "gridStartUTC 2019 = 17895 * 86400000"
    by (simp add: gridStartUTC_def dateUTC_def makeDay_def dayFromYear_def monthStart_def
        inLeapYear_def getUTCDay_def msPerDay_def Let_def)
  have "makeDay 2019 (indexOf MON (m ! 2)) (toNumber (m ! 4))
      = 17896 + monthStart (indexOf MON (m ! 2)) False + toNumber (m ! 4)"
    using mi by (simp add: makeDay_def dayFromYear_def inLeapYear_def Let_def)
  then have "parseFullDayUTC d
      = Inr ((17896 + monthStart (indexOf MON (m ! 2)) False + toNumber (m ! 4)) * 86400000)"
    using assms(1,3) by (simp add: parseFullDayUTC_def dateUTC_def msPerDay_def Let_def)
  then have "dayIndex (gridStartUTC 2019) d
      = Inr (((17896 + monthStart (indexOf MON (m ! 2)) False + toNumber (m ! 4)) * 86400000
              - 17895 * 86400000) div 86400000)"
    by (simp only: dayIndex_def g sum.case)
  also have "((17896 + monthStart (indexOf MON (m ! 2)) False + toNumber (m ! 4)) * 86400000
              - 17895 * 86400000) div 86400000
      = 1 + monthStart (indexOf MON (m ! 2)) False + toNumber (m ! 4)"
    by simp
  finally show ?thesis using ms dd by simp
qed

lemma matchGroups_nonempty:
  assumes "matchGroups ((Lit w # as) # gs) cs = Some (g, rest)" and "w \<noteq> []"
  shows "concat g \<noteq> []"
proof -
  from matchGroups_Cons [OF assms(1)] obtain r1 caps'
    where s: "matchSeq (Lit w # as) cs = Some r1"
      and g: "g = take (length cs - length r1) cs # caps'"
    by blast
  from matchSeq_Lit_nonempty [OF s assms(2)] have "take (length cs - length r1) cs \<noteq> []"
    by auto
  with g show ?thesis by simp
qed

text \<open>
  A match of the anchor expression is never empty, so the loop that collects the
  anchors always moves on.
\<close>

lemma msgRe_nonempty:
  assumes "msgRe prev cs = Some g"
  shows "concat g \<noteq> []"
proof (cases "if atLineStart prev then matchGroups msgGroups cs else None")
  case None
  with assms obtain r where "matchGroups ([Lit [10]] # msgGroups) cs = Some (g, r)"
    by (auto simp: msgRe_def)
  then show ?thesis by (rule matchGroups_nonempty) simp
next
  case (Some a)
  obtain g' r where a: "a = (g', r)" by (cases a)
  with Some have "matchGroups msgGroups cs = Some (g', r)" by (simp split: if_splits)
  then have "concat g' \<noteq> []"
    unfolding msgGroups_def commitHead_def append_Cons by (rule matchGroups_nonempty) (simp add: str_def)
  moreover from assms Some a have "g = [] # g'" by (simp add: msgRe_def)
  ultimately show ?thesis by simp
qed

subsection \<open>A run\<close>

text \<open>
  With anchors that all parse, \<^verbatim>\<open>main\<close> is the echo pass followed by the commit pass,
  both with the closure \<^verbatim>\<open>remapOne\<close> of the run; that closure throws exactly on the
  strings that \<^verbatim>\<open>parseFullDayUTC\<close> rejects.
\<close>

lemma main_rewrite:
  assumes "anchors (sanitize raw) \<noteq> []"
    and "mapE (dayIndex (gridStartUTC 2019)) (anchors (sanitize raw)) = Inr idxs"
  shows "main now raw =
     (case jsReplace echoRe (echoRepl (runRemap now idxs)) None (sanitize raw) of
        Inl e \<Rightarrow> Inl e
      | Inr input' \<Rightarrow> jsReplace commitRe (commitRepl (runRemap now idxs)) None input')"
  using assms
  by (simp add: main_def Let_def runRemap_def runShift_def runTodayRow_def runWindowStart_def
      runNowUTC_def split: sum.splits)

lemma runRemap_shaped:
  assumes "matchGroups dateHead d \<noteq> None"
  shows "\<exists>i. dayIndex (gridStartUTC 2019) d = Inr i
    \<and> runRemap now idxs d = Inr (runMapped now idxs d)
    \<and> runMapped now idxs d
        = fmtUTCNoon (runWindowStart now + newIdxFromWindow (runShift now idxs) i * 86400000)"
proof -
  from parseFullDayUTC_succeeds [OF assms] obtain t where "parseFullDayUTC d = Inr t" by blast
  then have "dayIndex (gridStartUTC 2019) d = Inr ((t - gridStartUTC 2019) div 86400000)"
    by (simp add: dayIndex_def)
  then show ?thesis
    by (simp add: runMapped_def runRemap_def remapOne_def Let_def)
qed

lemma runRemap_fails:
  "matchGroups dateHead d = None \<Longrightarrow> runRemap now idxs d = Inl (Error (str ''Bad date: '' @ d))"
  by (simp add: runRemap_def remapOne_fails)

lemma runRemap_Inl:
  assumes "runRemap now idxs d = Inl e"
  shows "matchGroups dateHead d = None \<and> e = Error (str ''Bad date: '' @ d)"
proof (cases "matchGroups dateHead d")
  case None
  from runRemap_fails [OF None, of now idxs] assms None show ?thesis by simp
next
  case (Some a)
  then have "matchGroups dateHead d \<noteq> None" by simp
  from runRemap_shaped [OF this, of now idxs] assms show ?thesis by auto
qed

subsection \<open>The rewriter\<close>

lemma echoRe_prefix: "echoRe prev cs = Some g \<Longrightarrow> \<exists>r. cs = concat g @ r"
  by (auto simp: echoRe_def unanchored_def dest: matchGroups_concat)

lemma commitRe_prefix: "commitRe prev cs = Some g \<Longrightarrow> \<exists>r. cs = concat g @ r"
  by (auto simp: commitRe_def unanchored_def dest: matchGroups_concat)

lemma echoRe_nonempty:
  assumes "echoRe prev cs = Some g"
  shows "concat g \<noteq> []"
proof -
  from assms obtain rest where "matchGroups echoGroups cs = Some (g, rest)"
    by (auto simp: echoRe_def unanchored_def)
  then show ?thesis
    unfolding echoGroups_def by (rule matchGroups_nonempty) (simp add: str_def)
qed

lemma commitRe_nonempty:
  assumes "commitRe prev cs = Some g"
  shows "concat g \<noteq> []"
proof -
  from assms obtain rest where "matchGroups commitGroups cs = Some (g, rest)"
    by (auto simp: commitRe_def unanchored_def)
  then show ?thesis
    unfolding commitGroups_def commitHead_def by (rule matchGroups_nonempty) (simp add: str_def)
qed

text \<open>
  The matches that \<^verbatim>\<open>replace\<close> finds with the echo expression and with the commit
  expression are those that a loop of \<^verbatim>\<open>exec\<close> finds.
\<close>

lemma echoRe_scan_execAll: "map snd (fst (scan echoRe None input)) = execAll echoRe None input"
  by (rule scan_execAll) (blast dest: echoRe_nonempty echoRe_prefix)

lemma commitRe_scan_execAll: "map snd (fst (scan commitRe None input)) = execAll commitRe None input"
  by (rule scan_execAll) (blast dest: commitRe_nonempty commitRe_prefix)

lemma commitRe_fields:
  assumes "commitRe prev cs = Some g"
  shows "\<exists>h a u d. g = [h @ str ''--date='' @ [39], a, 39 # u @ [39], d, [39]]"
proof -
  from assms obtain rest where "matchGroups commitGroups cs = Some (g, rest)"
    by (auto simp: commitRe_def unanchored_def)
  from commitGroups_fields [OF this] show ?thesis by blast
qed

lemma echoRe_fields:
  assumes "echoRe prev cs = Some g"
  shows "\<exists>a d c. g = [a, d, c]"
proof -
  from assms obtain rest where "matchGroups echoGroups cs = Some (g, rest)"
    by (auto simp: echoRe_def unanchored_def)
  from matchGroups_concat [OF this] have "length g = 3" by (simp add: echoGroups_def)
  then show ?thesis
    by (cases g; simp; cases "tl g"; simp; cases "tl (tl g)"; simp)
qed

lemma echo_pass:
  assumes "scan echoRe None input = (esegs, etail)"
    and "\<forall>(pre, g) \<in> set esegs. matchGroups dateHead (g ! 1) \<noteq> None"
  shows "jsReplace echoRe (echoRepl (runRemap now idxs)) None input
      = Inr (concat (map (\<lambda>(pre, g). pre @ g ! 0 @ runMapped now idxs (g ! 1) @ g ! 2) esegs) @ etail)"
proof -
  have "\<forall>p\<in>set esegs. echoRepl (runRemap now idxs) (snd p)
      = Inr (snd p ! 0 @ runMapped now idxs (snd p ! 1) @ snd p ! 2)"
  proof
    fix p assume "p \<in> set esegs"
    with assms(2) have "matchGroups dateHead (snd p ! 1) \<noteq> None" by (auto simp: case_prod_unfold)
    from runRemap_shaped [OF this, of now idxs]
    have "runRemap now idxs (snd p ! 1) = Inr (runMapped now idxs (snd p ! 1))" by blast
    then show "echoRepl (runRemap now idxs) (snd p)
        = Inr (snd p ! 0 @ runMapped now idxs (snd p ! 1) @ snd p ! 2)"
      by (simp add: echoRepl_def del: One_nat_def)
  qed
  from rebuild_ok [of esegs "echoRepl (runRemap now idxs)"
      "\<lambda>g. g ! 0 @ runMapped now idxs (g ! 1) @ g ! 2" etail, OF this]
  show ?thesis
    using assms(1) by (simp add: jsReplace_rebuild case_prod_unfold del: One_nat_def)
qed

lemma commit_pass:
  assumes "scan commitRe None input = (csegs, ctail)"
    and "\<forall>(pre, g) \<in> set csegs. matchGroups dateHead (g ! 3) \<noteq> None"
  shows "jsReplace commitRe (commitRepl (runRemap now idxs)) None input
      = Inr (concat (map (\<lambda>(pre, g). pre @ g ! 0 @ runMapped now idxs (g ! 3) @ g ! 2
                                        @ runMapped now idxs (g ! 3) @ g ! 4) csegs) @ ctail)"
proof -
  have "\<forall>p\<in>set csegs. commitRepl (runRemap now idxs) (snd p)
      = Inr (snd p ! 0 @ runMapped now idxs (snd p ! 3) @ snd p ! 2
              @ runMapped now idxs (snd p ! 3) @ snd p ! 4)"
  proof
    fix p assume "p \<in> set csegs"
    with assms(2) have "matchGroups dateHead (snd p ! 3) \<noteq> None" by (auto simp: case_prod_unfold)
    from runRemap_shaped [OF this, of now idxs]
    have "runRemap now idxs (snd p ! 3) = Inr (runMapped now idxs (snd p ! 3))" by blast
    then show "commitRepl (runRemap now idxs) (snd p)
        = Inr (snd p ! 0 @ runMapped now idxs (snd p ! 3) @ snd p ! 2
              @ runMapped now idxs (snd p ! 3) @ snd p ! 4)"
      by (simp add: commitRepl_def del: One_nat_def)
  qed
  from rebuild_ok [of csegs "commitRepl (runRemap now idxs)"
      "\<lambda>g. g ! 0 @ runMapped now idxs (g ! 3) @ g ! 2 @ runMapped now idxs (g ! 3) @ g ! 4" ctail,
      OF this]
  show ?thesis
    using assms(1) by (simp add: jsReplace_rebuild case_prod_unfold del: One_nat_def)
qed

lemma commit_scan_fields:
  assumes "scan commitRe None input = (csegs, ctail)" and "(pre, g) \<in> set csegs"
  shows "\<exists>h a u d. g = [h @ str ''--date='' @ [39], a, 39 # u @ [39], d, [39]]"
proof -
  from assms have "g \<in> snd ` set (fst (scan commitRe None input))" by force
  from scan_matches [OF this] obtain prev' cs' where "commitRe prev' cs' = Some g" by blast
  then show ?thesis by (rule commitRe_fields)
qed

lemma commit_scan_text:
  assumes "scan commitRe None input = (csegs, ctail)"
  shows "input = concat (map (\<lambda>(pre, g). pre @ g ! 0 @ g ! 1 @ g ! 2 @ g ! 3 @ g ! 4) csegs) @ ctail"
proof -
  have "map (\<lambda>(pre, g). pre @ g ! 0 @ g ! 1 @ g ! 2 @ g ! 3 @ g ! 4) csegs
      = map (\<lambda>p. fst p @ concat (snd p)) csegs"
  proof (rule map_cong [OF refl])
    fix p assume p: "p \<in> set csegs"
    obtain pre g where pg: "p = (pre, g)" by (cases p)
    from commit_scan_fields [OF assms] p pg
    obtain h a u d where "g = [h @ str ''--date='' @ [39], a, 39 # u @ [39], d, [39]]" by blast
    with pg show "(case p of (pre, g) \<Rightarrow> pre @ g ! 0 @ g ! 1 @ g ! 2 @ g ! 3 @ g ! 4)
        = fst p @ concat (snd p)"
      by simp
  qed
  then have m: "concat (map (\<lambda>p. fst p @ concat (snd p)) csegs)
      = concat (map (\<lambda>(pre, g). pre @ g ! 0 @ g ! 1 @ g ! 2 @ g ! 3 @ g ! 4) csegs)"
    by (rule arg_cong [of _ _ concat, symmetric])
  have "concat (map (\<lambda>p. fst p @ concat (snd p)) (fst (scan commitRe None input)))
      @ snd (scan commitRe None input) = input"
    by (rule scan_text) (rule commitRe_prefix)
  with assms have "concat (map (\<lambda>p. fst p @ concat (snd p)) csegs) @ ctail = input" by simp
  then show ?thesis unfolding m by simp
qed

lemma echo_scan_text:
  assumes "scan echoRe None input = (esegs, etail)"
  shows "input = concat (map (\<lambda>(pre, g). pre @ g ! 0 @ g ! 1 @ g ! 2) esegs) @ etail"
proof -
  have "map (\<lambda>(pre, g). pre @ g ! 0 @ g ! 1 @ g ! 2) esegs
      = map (\<lambda>p. fst p @ concat (snd p)) esegs"
  proof (rule map_cong [OF refl])
    fix p assume p: "p \<in> set esegs"
    obtain pre g where pg: "p = (pre, g)" by (cases p)
    from assms p pg have "g \<in> snd ` set (fst (scan echoRe None input))" by force
    from scan_matches [OF this] obtain prev' cs' where "echoRe prev' cs' = Some g" by blast
    from echoRe_fields [OF this] obtain a d c where "g = [a, d, c]" by blast
    with pg show "(case p of (pre, g) \<Rightarrow> pre @ g ! 0 @ g ! 1 @ g ! 2) = fst p @ concat (snd p)"
      by simp
  qed
  then have m: "concat (map (\<lambda>p. fst p @ concat (snd p)) esegs)
      = concat (map (\<lambda>(pre, g). pre @ g ! 0 @ g ! 1 @ g ! 2) esegs)"
    by (rule arg_cong [of _ _ concat, symmetric])
  have "concat (map (\<lambda>p. fst p @ concat (snd p)) (fst (scan echoRe None input)))
      @ snd (scan echoRe None input) = input"
    by (rule scan_text) (rule echoRe_prefix)
  with assms have "concat (map (\<lambda>p. fst p @ concat (snd p)) esegs) @ etail = input" by simp
  then show ?thesis unfolding m by simp
qed

text \<open>
  Claim C5. A run whose dates all have the shape that \<^verbatim>\<open>parseFullDayUTC\<close> accepts
  rewrites every commit line of the template. Let the anchors not be empty, with the
  day indices \<open>idxs\<close>; let \<open>esegs\<close>, \<open>etail\<close> be the scan of the echo expression over the
  sanitized text, \<open>input'\<close> the text of the echo pass, and \<open>csegs\<close>, \<open>ctail\<close> the scan of
  the commit expression over \<open>input'\<close>. The run writes the text before and between the
  matches of the commit expression as it is, and for every match, with the groups \<open>a\<close>,
  \<open>anyDate\<close>, \<open>b\<close>, \<open>msgDate\<close>, \<open>e\<close>, the text \<open>a\<close>, \<open>mapped\<close>, \<open>b\<close>, \<open>mapped\<close>, \<open>e\<close>,
  where \<open>mapped\<close> is what \<^verbatim>\<open>remapOne\<close> returns for \<open>msgDate\<close>: both fields carry the value
  mapped from the message date, and \<open>anyDate\<close>, the old content of the date field, is
  dropped. Here \<open>a\<close> ends with \<^verbatim>\<open>--date='\<close>, \<open>b\<close> runs from the closing quote of the date
  field to the opening quote of the message, and \<open>e\<close> is the closing quote. Every mapped
  value, of an echo line or of a commit line, is \<^verbatim>\<open>fmtUTCNoon\<close> of a day of the window, and
  every text that \<^verbatim>\<open>fmtUTCNoon\<close> returns ends with the fixed time \<^verbatim>\<open>12:00:00\<close>, the fixed
  offset \<^verbatim>\<open>GMT+0000\<close> and the fixed zone \<^verbatim>\<open>(UTC)\<close>.
\<close>

theorem commit_lines_rewritten:
  assumes "anchors (sanitize raw) \<noteq> []"
    and "mapE (dayIndex (gridStartUTC 2019)) (anchors (sanitize raw)) = Inr idxs"
    and "scan echoRe None (sanitize raw) = (esegs, etail)"
    and "\<forall>(pre, g) \<in> set esegs. matchGroups dateHead (g ! 1) \<noteq> None"
    and "input' = concat (map (\<lambda>(pre, g). pre @ g ! 0 @ runMapped now idxs (g ! 1) @ g ! 2) esegs) @ etail"
    and "scan commitRe None input' = (csegs, ctail)"
    and "\<forall>(pre, g) \<in> set csegs. matchGroups dateHead (g ! 3) \<noteq> None"
  shows "sanitize raw = concat (map (\<lambda>(pre, g). pre @ g ! 0 @ g ! 1 @ g ! 2) esegs) @ etail
    \<and> input' = concat (map (\<lambda>(pre, g). pre @ g ! 0 @ g ! 1 @ g ! 2 @ g ! 3 @ g ! 4) csegs) @ ctail
    \<and> main now raw
        = Inr (concat (map (\<lambda>(pre, g). pre @ g ! 0 @ runMapped now idxs (g ! 3) @ g ! 2
                                          @ runMapped now idxs (g ! 3) @ g ! 4) csegs) @ ctail)
    \<and> (\<forall>(pre, g) \<in> set csegs.
          \<exists>h u. g ! 0 = h @ str ''--date='' @ [39] \<and> g ! 2 = 39 # u @ [39] \<and> g ! 4 = [39])
    \<and> (\<forall>(pre, g) \<in> set csegs.
          \<exists>i. dayIndex (gridStartUTC 2019) (g ! 3) = Inr i
            \<and> runMapped now idxs (g ! 3)
                = fmtUTCNoon (runWindowStart now + newIdxFromWindow (runShift now idxs) i * 86400000))
    \<and> (\<forall>(pre, g) \<in> set esegs.
          \<exists>i. dayIndex (gridStartUTC 2019) (g ! 1) = Inr i
            \<and> runMapped now idxs (g ! 1)
                = fmtUTCNoon (runWindowStart now + newIdxFromWindow (runShift now idxs) i * 86400000))
    \<and> (\<forall>t. \<exists>p. fmtUTCNoon t = p @ str '' 12:00:00 GMT+0000 (UTC)'')"
proof -
  have e: "jsReplace echoRe (echoRepl (runRemap now idxs)) None (sanitize raw) = Inr input'"
    unfolding assms(5) using assms(3,4) by (rule echo_pass)
  have c: "jsReplace commitRe (commitRepl (runRemap now idxs)) None input'
      = Inr (concat (map (\<lambda>(pre, g). pre @ g ! 0 @ runMapped now idxs (g ! 3) @ g ! 2
                                        @ runMapped now idxs (g ! 3) @ g ! 4) csegs) @ ctail)"
    using assms(6,7) by (rule commit_pass)
  have m: "main now raw
      = Inr (concat (map (\<lambda>(pre, g). pre @ g ! 0 @ runMapped now idxs (g ! 3) @ g ! 2
                                        @ runMapped now idxs (g ! 3) @ g ! 4) csegs) @ ctail)"
    unfolding main_rewrite [OF assms(1,2)] e using c by simp
  have f: "\<forall>(pre, g) \<in> set csegs.
      \<exists>h u. g ! 0 = h @ str ''--date='' @ [39] \<and> g ! 2 = 39 # u @ [39] \<and> g ! 4 = [39]"
  proof (clarify)
    fix pre g assume "(pre, g) \<in> set csegs"
    from commit_scan_fields [OF assms(6) this]
    obtain h a u d where "g = [h @ str ''--date='' @ [39], a, 39 # u @ [39], d, [39]]" by blast
    then have "g ! 0 = h @ str ''--date='' @ [39] \<and> g ! 2 = 39 # u @ [39] \<and> g ! 4 = [39]" by simp
    then show "\<exists>h u. g ! 0 = h @ str ''--date='' @ [39] \<and> g ! 2 = 39 # u @ [39] \<and> g ! 4 = [39]"
      by blast
  qed
  have dc: "\<forall>(pre, g) \<in> set csegs.
      \<exists>i. dayIndex (gridStartUTC 2019) (g ! 3) = Inr i
        \<and> runMapped now idxs (g ! 3)
            = fmtUTCNoon (runWindowStart now + newIdxFromWindow (runShift now idxs) i * 86400000)"
  proof (clarify)
    fix pre g assume "(pre, g) \<in> set csegs"
    with assms(7) have "matchGroups dateHead (g ! 3) \<noteq> None" by auto
    from runRemap_shaped [OF this, of now idxs]
    show "\<exists>i. dayIndex (gridStartUTC 2019) (g ! 3) = Inr i
        \<and> runMapped now idxs (g ! 3)
            = fmtUTCNoon (runWindowStart now + newIdxFromWindow (runShift now idxs) i * 86400000)"
      by blast
  qed
  have de: "\<forall>(pre, g) \<in> set esegs.
      \<exists>i. dayIndex (gridStartUTC 2019) (g ! 1) = Inr i
        \<and> runMapped now idxs (g ! 1)
            = fmtUTCNoon (runWindowStart now + newIdxFromWindow (runShift now idxs) i * 86400000)"
  proof (clarify)
    fix pre g assume "(pre, g) \<in> set esegs"
    with assms(4) have "matchGroups dateHead (g ! 1) \<noteq> None" by auto
    from runRemap_shaped [OF this, of now idxs]
    show "\<exists>i. dayIndex (gridStartUTC 2019) (g ! 1) = Inr i
        \<and> runMapped now idxs (g ! 1)
            = fmtUTCNoon (runWindowStart now + newIdxFromWindow (runShift now idxs) i * 86400000)"
      by blast
  qed
  from echo_scan_text [OF assms(3)] commit_scan_text [OF assms(6)] m f dc de fmtUTCNoon_suffix
  show ?thesis by blast
qed

theorem commit_lines_rewritten_witness:
  "anchors (sanitize (str ''set -e\<newline>echo '' @ [39] @ str ''Mon Jan 07 2019 00:00:00 GMT-0500 (EST)'' @ [39]
       @ str '' >> foobar.txt\<newline>git add .\<newline>git commit --date='' @ [39]
       @ str ''Tue Feb 05 2019 03:04:05 GMT+0100 (CET)'' @ [39] @ str '' -m '' @ [39]
       @ str ''Mon Jan 07 2019 00:00:00 GMT-0500 (EST)'' @ [39]
       @ str ''\<newline>git commit --date='' @ [39] @ str ''Tue Jan 15 2019 00:00:00 GMT-0500 (EST)'' @ [39]
       @ str '' -m '' @ [39] @ str ''Tue Jan 15 2019 00:00:00 GMT-0500 (EST)'' @ [39] @ str ''\<newline>git push''))
     = [str ''Mon Jan 07 2019 00:00:00 GMT-0500 (EST)'', str ''Tue Jan 15 2019 00:00:00 GMT-0500 (EST)'']
   \<and> mapE (dayIndex (gridStartUTC 2019)) [str ''Mon Jan 07 2019 00:00:00 GMT-0500 (EST)'', str ''Tue Jan 15 2019 00:00:00 GMT-0500 (EST)''] = Inr [8, 16]
   \<and> map (\<lambda>(pre, g). g ! 1) (fst (scan echoRe None (sanitize (str ''set -e\<newline>echo '' @ [39] @ str ''Mon Jan 07 2019 00:00:00 GMT-0500 (EST)'' @ [39]
       @ str '' >> foobar.txt\<newline>git add .\<newline>git commit --date='' @ [39]
       @ str ''Tue Feb 05 2019 03:04:05 GMT+0100 (CET)'' @ [39] @ str '' -m '' @ [39]
       @ str ''Mon Jan 07 2019 00:00:00 GMT-0500 (EST)'' @ [39]
       @ str ''\<newline>git commit --date='' @ [39] @ str ''Tue Jan 15 2019 00:00:00 GMT-0500 (EST)'' @ [39]
       @ str '' -m '' @ [39] @ str ''Tue Jan 15 2019 00:00:00 GMT-0500 (EST)'' @ [39] @ str ''\<newline>git push''))))
     = [str ''Mon Jan 07 2019 00:00:00 GMT-0500 (EST)'']
   \<and> map (\<lambda>(pre, g). (g ! 1, g ! 3)) (fst (scan commitRe None (str ''set -e\<newline>echo '' @ [39] @ str ''Mon Apr 27 2026 12:00:00 GMT+0000 (UTC)'' @ [39]
       @ str '' >> foobar.txt\<newline>git add .\<newline>git commit --date='' @ [39]
       @ str ''Tue Feb 05 2019 03:04:05 GMT+0100 (CET)'' @ [39] @ str '' -m '' @ [39]
       @ str ''Mon Jan 07 2019 00:00:00 GMT-0500 (EST)'' @ [39]
       @ str ''\<newline>git commit --date='' @ [39] @ str ''Tue Jan 15 2019 00:00:00 GMT-0500 (EST)'' @ [39]
       @ str '' -m '' @ [39] @ str ''Tue Jan 15 2019 00:00:00 GMT-0500 (EST)'' @ [39] @ str ''\<newline>git push'')))
     = [(str ''Tue Feb 05 2019 03:04:05 GMT+0100 (CET)'', str ''Mon Jan 07 2019 00:00:00 GMT-0500 (EST)''),
        (str ''Tue Jan 15 2019 00:00:00 GMT-0500 (EST)'', str ''Tue Jan 15 2019 00:00:00 GMT-0500 (EST)'')]
   \<and> main 1793664005000 (str ''set -e\<newline>echo '' @ [39] @ str ''Mon Jan 07 2019 00:00:00 GMT-0500 (EST)'' @ [39]
       @ str '' >> foobar.txt\<newline>git add .\<newline>git commit --date='' @ [39]
       @ str ''Tue Feb 05 2019 03:04:05 GMT+0100 (CET)'' @ [39] @ str '' -m '' @ [39]
       @ str ''Mon Jan 07 2019 00:00:00 GMT-0500 (EST)'' @ [39]
       @ str ''\<newline>git commit --date='' @ [39] @ str ''Tue Jan 15 2019 00:00:00 GMT-0500 (EST)'' @ [39]
       @ str '' -m '' @ [39] @ str ''Tue Jan 15 2019 00:00:00 GMT-0500 (EST)'' @ [39] @ str ''\<newline>git push'')
     = Inr (str ''set -e\<newline>echo '' @ [39] @ str ''Mon Apr 27 2026 12:00:00 GMT+0000 (UTC)'' @ [39]
       @ str '' >> foobar.txt\<newline>git add .\<newline>git commit --date='' @ [39]
       @ str ''Mon Apr 27 2026 12:00:00 GMT+0000 (UTC)'' @ [39] @ str '' -m '' @ [39]
       @ str ''Mon Apr 27 2026 12:00:00 GMT+0000 (UTC)'' @ [39]
       @ str ''\<newline>git commit --date='' @ [39] @ str ''Tue May 05 2026 12:00:00 GMT+0000 (UTC)'' @ [39]
       @ str '' -m '' @ [39] @ str ''Tue May 05 2026 12:00:00 GMT+0000 (UTC)'' @ [39] @ str ''\<newline>git push'')"
proof -
  let ?T = "(str ''set -e\<newline>echo '' @ [39] @ str ''Mon Jan 07 2019 00:00:00 GMT-0500 (EST)'' @ [39]
       @ str '' >> foobar.txt\<newline>git add .\<newline>git commit --date='' @ [39]
       @ str ''Tue Feb 05 2019 03:04:05 GMT+0100 (CET)'' @ [39] @ str '' -m '' @ [39]
       @ str ''Mon Jan 07 2019 00:00:00 GMT-0500 (EST)'' @ [39]
       @ str ''\<newline>git commit --date='' @ [39] @ str ''Tue Jan 15 2019 00:00:00 GMT-0500 (EST)'' @ [39]
       @ str '' -m '' @ [39] @ str ''Tue Jan 15 2019 00:00:00 GMT-0500 (EST)'' @ [39] @ str ''\<newline>git push'')"
  let ?I = "(str ''set -e\<newline>echo '' @ [39] @ str ''Mon Apr 27 2026 12:00:00 GMT+0000 (UTC)'' @ [39]
       @ str '' >> foobar.txt\<newline>git add .\<newline>git commit --date='' @ [39]
       @ str ''Tue Feb 05 2019 03:04:05 GMT+0100 (CET)'' @ [39] @ str '' -m '' @ [39]
       @ str ''Mon Jan 07 2019 00:00:00 GMT-0500 (EST)'' @ [39]
       @ str ''\<newline>git commit --date='' @ [39] @ str ''Tue Jan 15 2019 00:00:00 GMT-0500 (EST)'' @ [39]
       @ str '' -m '' @ [39] @ str ''Tue Jan 15 2019 00:00:00 GMT-0500 (EST)'' @ [39] @ str ''\<newline>git push'')"
  have c1: "anchors (sanitize (str ''set -e\<newline>echo '' @ [39] @ str ''Mon Jan 07 2019 00:00:00 GMT-0500 (EST)'' @ [39]
       @ str '' >> foobar.txt\<newline>git add .\<newline>git commit --date='' @ [39]
       @ str ''Tue Feb 05 2019 03:04:05 GMT+0100 (CET)'' @ [39] @ str '' -m '' @ [39]
       @ str ''Mon Jan 07 2019 00:00:00 GMT-0500 (EST)'' @ [39]
       @ str ''\<newline>git commit --date='' @ [39] @ str ''Tue Jan 15 2019 00:00:00 GMT-0500 (EST)'' @ [39]
       @ str '' -m '' @ [39] @ str ''Tue Jan 15 2019 00:00:00 GMT-0500 (EST)'' @ [39] @ str ''\<newline>git push''))
     = [str ''Mon Jan 07 2019 00:00:00 GMT-0500 (EST)'', str ''Tue Jan 15 2019 00:00:00 GMT-0500 (EST)'']"
    by code_simp
  have c2: "mapE (dayIndex (gridStartUTC 2019)) [str ''Mon Jan 07 2019 00:00:00 GMT-0500 (EST)'', str ''Tue Jan 15 2019 00:00:00 GMT-0500 (EST)''] = Inr [8, 16]"
    by code_simp
  have c3: "map (\<lambda>(pre, g). g ! 1) (fst (scan echoRe None (sanitize (str ''set -e\<newline>echo '' @ [39] @ str ''Mon Jan 07 2019 00:00:00 GMT-0500 (EST)'' @ [39]
       @ str '' >> foobar.txt\<newline>git add .\<newline>git commit --date='' @ [39]
       @ str ''Tue Feb 05 2019 03:04:05 GMT+0100 (CET)'' @ [39] @ str '' -m '' @ [39]
       @ str ''Mon Jan 07 2019 00:00:00 GMT-0500 (EST)'' @ [39]
       @ str ''\<newline>git commit --date='' @ [39] @ str ''Tue Jan 15 2019 00:00:00 GMT-0500 (EST)'' @ [39]
       @ str '' -m '' @ [39] @ str ''Tue Jan 15 2019 00:00:00 GMT-0500 (EST)'' @ [39] @ str ''\<newline>git push''))))
     = [str ''Mon Jan 07 2019 00:00:00 GMT-0500 (EST)'']"
    by code_simp
  have c4: "map (\<lambda>(pre, g). (g ! 1, g ! 3)) (fst (scan commitRe None (str ''set -e\<newline>echo '' @ [39] @ str ''Mon Apr 27 2026 12:00:00 GMT+0000 (UTC)'' @ [39]
       @ str '' >> foobar.txt\<newline>git add .\<newline>git commit --date='' @ [39]
       @ str ''Tue Feb 05 2019 03:04:05 GMT+0100 (CET)'' @ [39] @ str '' -m '' @ [39]
       @ str ''Mon Jan 07 2019 00:00:00 GMT-0500 (EST)'' @ [39]
       @ str ''\<newline>git commit --date='' @ [39] @ str ''Tue Jan 15 2019 00:00:00 GMT-0500 (EST)'' @ [39]
       @ str '' -m '' @ [39] @ str ''Tue Jan 15 2019 00:00:00 GMT-0500 (EST)'' @ [39] @ str ''\<newline>git push'')))
     = [(str ''Tue Feb 05 2019 03:04:05 GMT+0100 (CET)'', str ''Mon Jan 07 2019 00:00:00 GMT-0500 (EST)''),
        (str ''Tue Jan 15 2019 00:00:00 GMT-0500 (EST)'', str ''Tue Jan 15 2019 00:00:00 GMT-0500 (EST)'')]"
    by code_simp
  from c1 have a: "anchors (sanitize ?T) \<noteq> []"
    by simp
  from c1 c2 have i: "mapE (dayIndex (gridStartUTC 2019)) (anchors (sanitize ?T)) = Inr [8, 16]"
    by simp
  have se: "scan echoRe None (sanitize ?T)
      = (fst (scan echoRe None (sanitize ?T)), snd (scan echoRe None (sanitize ?T)))"
    by simp
  have de: "\<forall>(pre, g) \<in> set (fst (scan echoRe None (sanitize ?T))). matchGroups dateHead (g ! 1) \<noteq> None"
    by code_simp
  have ip: "?I = concat (map (\<lambda>(pre, g). pre @ g ! 0 @ runMapped 1793664005000 [8, 16] (g ! 1) @ g ! 2)
        (fst (scan echoRe None (sanitize ?T)))) @ snd (scan echoRe None (sanitize ?T))"
    by code_simp
  have sc: "scan commitRe None ?I = (fst (scan commitRe None ?I), snd (scan commitRe None ?I))"
    by simp
  have dc: "\<forall>(pre, g) \<in> set (fst (scan commitRe None ?I)). matchGroups dateHead (g ! 3) \<noteq> None"
    by code_simp
  have out: "concat (map (\<lambda>(pre, g). pre @ g ! 0 @ runMapped 1793664005000 [8, 16] (g ! 3) @ g ! 2
          @ runMapped 1793664005000 [8, 16] (g ! 3) @ g ! 4) (fst (scan commitRe None ?I)))
        @ snd (scan commitRe None ?I)
      = (str ''set -e\<newline>echo '' @ [39] @ str ''Mon Apr 27 2026 12:00:00 GMT+0000 (UTC)'' @ [39]
       @ str '' >> foobar.txt\<newline>git add .\<newline>git commit --date='' @ [39]
       @ str ''Mon Apr 27 2026 12:00:00 GMT+0000 (UTC)'' @ [39] @ str '' -m '' @ [39]
       @ str ''Mon Apr 27 2026 12:00:00 GMT+0000 (UTC)'' @ [39]
       @ str ''\<newline>git commit --date='' @ [39] @ str ''Tue May 05 2026 12:00:00 GMT+0000 (UTC)'' @ [39]
       @ str '' -m '' @ [39] @ str ''Tue May 05 2026 12:00:00 GMT+0000 (UTC)'' @ [39] @ str ''\<newline>git push'')"
    by code_simp
  from commit_lines_rewritten [OF a i se de ip sc dc]
  have "main 1793664005000 ?T
      = Inr (concat (map (\<lambda>(pre, g). pre @ g ! 0 @ runMapped 1793664005000 [8, 16] (g ! 3) @ g ! 2
          @ runMapped 1793664005000 [8, 16] (g ! 3) @ g ! 4) (fst (scan commitRe None ?I)))
        @ snd (scan commitRe None ?I))"
    by (rule conjunct1 [OF conjunct2 [OF conjunct2]])
  then have c5: "main 1793664005000 (str ''set -e\<newline>echo '' @ [39] @ str ''Mon Jan 07 2019 00:00:00 GMT-0500 (EST)'' @ [39]
       @ str '' >> foobar.txt\<newline>git add .\<newline>git commit --date='' @ [39]
       @ str ''Tue Feb 05 2019 03:04:05 GMT+0100 (CET)'' @ [39] @ str '' -m '' @ [39]
       @ str ''Mon Jan 07 2019 00:00:00 GMT-0500 (EST)'' @ [39]
       @ str ''\<newline>git commit --date='' @ [39] @ str ''Tue Jan 15 2019 00:00:00 GMT-0500 (EST)'' @ [39]
       @ str '' -m '' @ [39] @ str ''Tue Jan 15 2019 00:00:00 GMT-0500 (EST)'' @ [39] @ str ''\<newline>git push'')
     = Inr (str ''set -e\<newline>echo '' @ [39] @ str ''Mon Apr 27 2026 12:00:00 GMT+0000 (UTC)'' @ [39]
       @ str '' >> foobar.txt\<newline>git add .\<newline>git commit --date='' @ [39]
       @ str ''Mon Apr 27 2026 12:00:00 GMT+0000 (UTC)'' @ [39] @ str '' -m '' @ [39]
       @ str ''Mon Apr 27 2026 12:00:00 GMT+0000 (UTC)'' @ [39]
       @ str ''\<newline>git commit --date='' @ [39] @ str ''Tue May 05 2026 12:00:00 GMT+0000 (UTC)'' @ [39]
       @ str '' -m '' @ [39] @ str ''Tue May 05 2026 12:00:00 GMT+0000 (UTC)'' @ [39] @ str ''\<newline>git push'')"
    by (simp only: out)
  from c1 c2 c3 c4 c5 show ?thesis
    by (intro conjI)
qed

subsection \<open>Parse errors\<close>

lemma echo_pass_fails:
  assumes "g \<in> snd ` set (fst (scan echoRe None input))"
    and "matchGroups dateHead (g ! 1) = None"
  shows "\<exists>d. matchGroups dateHead d = None
    \<and> jsReplace echoRe (echoRepl (runRemap now idxs)) None input = Inl (Error (str ''Bad date: '' @ d))"
proof -
  from assms(2) have "echoRepl (runRemap now idxs) g = Inl (Error (str ''Bad date: '' @ g ! 1))"
    by (simp add: echoRepl_def runRemap_fails del: One_nat_def)
  from rebuild_fails [of g "fst (scan echoRe None input)" "echoRepl (runRemap now idxs)" _
      "snd (scan echoRe None input)", OF assms(1) this] obtain g' e'
    where f: "echoRepl (runRemap now idxs) g' = Inl e'"
      and r: "rebuild (echoRepl (runRemap now idxs)) (fst (scan echoRe None input))
                (snd (scan echoRe None input)) = Inl e'"
    by blast
  from f have "runRemap now idxs (g' ! 1) = Inl e'"
    by (simp add: echoRepl_def del: One_nat_def split: sum.splits)
  from runRemap_Inl [OF this] r show ?thesis
    by (auto simp: jsReplace_rebuild)
qed

lemma commit_pass_fails:
  assumes "g \<in> snd ` set (fst (scan commitRe None input))"
    and "matchGroups dateHead (g ! 3) = None"
  shows "\<exists>d. matchGroups dateHead d = None
    \<and> jsReplace commitRe (commitRepl (runRemap now idxs)) None input = Inl (Error (str ''Bad date: '' @ d))"
proof -
  from assms(2) have "commitRepl (runRemap now idxs) g = Inl (Error (str ''Bad date: '' @ g ! 3))"
    by (simp add: commitRepl_def runRemap_fails del: One_nat_def)
  from rebuild_fails [of g "fst (scan commitRe None input)" "commitRepl (runRemap now idxs)" _
      "snd (scan commitRe None input)", OF assms(1) this] obtain g' e'
    where f: "commitRepl (runRemap now idxs) g' = Inl e'"
      and r: "rebuild (commitRepl (runRemap now idxs)) (fst (scan commitRe None input))
                (snd (scan commitRe None input)) = Inl e'"
    by blast
  from f have "runRemap now idxs (g' ! 3) = Inl e'"
    by (simp add: commitRepl_def del: One_nat_def split: sum.splits)
  from runRemap_Inl [OF this] r show ?thesis
    by (auto simp: jsReplace_rebuild)
qed

lemma main_bad_anchor_date:
  assumes "s \<in> set (anchors (sanitize raw))" and "matchGroups dateHead s = None"
  shows "\<exists>d. matchGroups dateHead d = None \<and> main now raw = Inl (Error (str ''Bad date: '' @ d))"
proof -
  from assms(2) have "dayIndex (gridStartUTC 2019) s = Inl (Error (str ''Bad date: '' @ s))"
    by (simp add: dayIndex_def parseFullDayUTC_fails)
  from mapE_fails [of s "anchors (sanitize raw)" "dayIndex (gridStartUTC 2019)", OF assms(1) this]
  obtain s' e'
    where d: "dayIndex (gridStartUTC 2019) s' = Inl e'"
      and m: "mapE (dayIndex (gridStartUTC 2019)) (anchors (sanitize raw)) = Inl e'"
    by blast
  from dayIndex_Inl [OF d] have e': "e' = Error (str ''Bad date: '' @ s')" .
  from d have b: "matchGroups dateHead s' = None"
    by (auto simp: dayIndex_def parseFullDayUTC_def Let_def split: option.splits)
  from assms(1) have "anchors (sanitize raw) \<noteq> []" by auto
  with m e' have "main now raw = Inl (Error (str ''Bad date: '' @ s'))"
    by (simp add: main_def Let_def)
  with b show ?thesis by blast
qed

lemma main_bad_echo_date:
  assumes "anchors (sanitize raw) \<noteq> []"
    and "mapE (dayIndex (gridStartUTC 2019)) (anchors (sanitize raw)) = Inr idxs"
    and "(pre, g) \<in> set (fst (scan echoRe None (sanitize raw)))"
    and "matchGroups dateHead (g ! 1) = None"
  shows "\<exists>d. matchGroups dateHead d = None \<and> main now raw = Inl (Error (str ''Bad date: '' @ d))"
proof -
  from assms(3) have "g \<in> snd ` set (fst (scan echoRe None (sanitize raw)))" by force
  from echo_pass_fails [OF this assms(4), of now idxs] obtain d
    where "matchGroups dateHead d = None"
      and "jsReplace echoRe (echoRepl (runRemap now idxs)) None (sanitize raw)
            = Inl (Error (str ''Bad date: '' @ d))"
    by blast
  then show ?thesis by (auto simp: main_rewrite [OF assms(1,2)])
qed

lemma main_bad_commit_date:
  assumes "anchors (sanitize raw) \<noteq> []"
    and "mapE (dayIndex (gridStartUTC 2019)) (anchors (sanitize raw)) = Inr idxs"
    and "jsReplace echoRe (echoRepl (runRemap now idxs)) None (sanitize raw) = Inr input'"
    and "(pre, g) \<in> set (fst (scan commitRe None input'))"
    and "matchGroups dateHead (g ! 3) = None"
  shows "\<exists>d. matchGroups dateHead d = None \<and> main now raw = Inl (Error (str ''Bad date: '' @ d))"
proof -
  from assms(4) have "g \<in> snd ` set (fst (scan commitRe None input'))" by force
  from commit_pass_fails [OF this assms(5), of now idxs] obtain d
    where "matchGroups dateHead d = None"
      and "jsReplace commitRe (commitRepl (runRemap now idxs)) None input'
            = Inl (Error (str ''Bad date: '' @ d))"
    by blast
  then show ?thesis by (auto simp: main_rewrite [OF assms(1,2)] assms(3))
qed

lemma main_Inl:
  assumes "main now raw = Inl e"
  shows "\<exists>d. matchGroups dateHead d = None \<and> e = Error (str ''Bad date: '' @ d)"
proof -
  from assms have ne: "anchors (sanitize raw) \<noteq> []"
    by (auto simp: main_def Let_def split: if_splits)
  show ?thesis
  proof (cases "mapE (dayIndex (gridStartUTC 2019)) (anchors (sanitize raw))")
    case (Inl e')
    with ne assms have "e' = e" by (simp add: main_def Let_def)
    with mapE_Inl [OF Inl] obtain s where d: "dayIndex (gridStartUTC 2019) s = Inl e" by blast
    from d have "matchGroups dateHead s = None"
      by (auto simp: dayIndex_def parseFullDayUTC_def Let_def split: option.splits)
    with dayIndex_Inl [OF d] show ?thesis by blast
  next
    case (Inr idxs)
    note mr = main_rewrite [OF ne Inr, of now]
    show ?thesis
    proof (cases "jsReplace echoRe (echoRepl (runRemap now idxs)) None (sanitize raw)")
      case (Inl e')
      with mr assms have ee: "e' = e" by simp
      from Inl have "rebuild (echoRepl (runRemap now idxs)) (fst (scan echoRe None (sanitize raw)))
          (snd (scan echoRe None (sanitize raw))) = Inl e'"
        by (simp only: jsReplace_rebuild)
      from rebuild_Inl [OF this] obtain p :: "jsstring \<times> jsstring list"
        where "echoRepl (runRemap now idxs) (snd p) = Inl e'"
        by blast
      then have "runRemap now idxs (snd p ! 1) = Inl e'"
        by (simp add: echoRepl_def del: One_nat_def split: sum.splits)
      from runRemap_Inl [OF this] ee show ?thesis by blast
    next
      case (Inr input')
      with mr assms have "jsReplace commitRe (commitRepl (runRemap now idxs)) None input' = Inl e"
        by simp
      then have "rebuild (commitRepl (runRemap now idxs)) (fst (scan commitRe None input'))
          (snd (scan commitRe None input')) = Inl e"
        by (simp only: jsReplace_rebuild)
      from rebuild_Inl [OF this] obtain p :: "jsstring \<times> jsstring list"
        where "commitRepl (runRemap now idxs) (snd p) = Inl e"
        by blast
      then have "runRemap now idxs (snd p ! 3) = Inl e"
        by (simp add: commitRepl_def del: One_nat_def split: sum.splits)
      from runRemap_Inl [OF this] show ?thesis by blast
    qed
  qed
qed

text \<open>
  Claim C6, as amended. \<^verbatim>\<open>parseFullDayUTC\<close> throws \<^verbatim>\<open>Error("Bad date: " + s)\<close> exactly
  when \<open>s\<close> does not start with a capitalised three-letter word, a space, a capitalised
  three-letter word, a space, two digits, a space, four digits and a space. Otherwise it
  returns the time value of \<^verbatim>\<open>Date.UTC\<close> at the month index that \<^verbatim>\<open>indexOf\<close> yields,
  whatever the month name is; for a name that is not in the table this is the day of
  December of the year before. The exception is fatal and nothing is written: a run
  ends with the exception \<^verbatim>\<open>Bad date\<close> of a string without that shape whenever such a
  string is among the anchors, or, the anchors having the shape, among the dates of the
  echo expression's matches in the sanitized text, or, the echo pass having returned,
  among the message dates of the commit expression's matches in the text of that pass.
  No other exception ends a run.
\<close>

theorem parse_error_aborts:
  "(matchGroups dateHead s = None \<longrightarrow> parseFullDayUTC s = Inl (Error (str ''Bad date: '' @ s)))
   \<and> (matchGroups dateHead s = Some (m, r) \<longrightarrow>
        parseFullDayUTC s
          = Inr (dateUTC (toNumber (m ! 6)) (indexOf MON (m ! 2)) (toNumber (m ! 4))))
   \<and> (matchGroups dateHead s = Some (m, r) \<and> m ! 2 \<notin> set MON \<longrightarrow>
        parseFullDayUTC s
          = Inr (makeDay ((if 0 \<le> toNumber (m ! 6) \<and> toNumber (m ! 6) \<le> 99
                           then 1900 + toNumber (m ! 6) else toNumber (m ! 6)) - 1) 11
                   (toNumber (m ! 4)) * msPerDay))
   \<and> (s \<in> set (anchors (sanitize raw)) \<and> matchGroups dateHead s = None \<longrightarrow>
        (\<exists>d. matchGroups dateHead d = None
           \<and> main now raw = Inl (Error (str ''Bad date: '' @ d))))
   \<and> (anchors (sanitize raw) \<noteq> []
        \<and> mapE (dayIndex (gridStartUTC 2019)) (anchors (sanitize raw)) = Inr idxs
        \<and> (pre, g) \<in> set (fst (scan echoRe None (sanitize raw)))
        \<and> matchGroups dateHead (g ! 1) = None \<longrightarrow>
        (\<exists>d. matchGroups dateHead d = None
           \<and> main now raw = Inl (Error (str ''Bad date: '' @ d))))
   \<and> (anchors (sanitize raw) \<noteq> []
        \<and> mapE (dayIndex (gridStartUTC 2019)) (anchors (sanitize raw)) = Inr idxs
        \<and> jsReplace echoRe (echoRepl (runRemap now idxs)) None (sanitize raw) = Inr input'
        \<and> (pre, g) \<in> set (fst (scan commitRe None input'))
        \<and> matchGroups dateHead (g ! 3) = None \<longrightarrow>
        (\<exists>d. matchGroups dateHead d = None
           \<and> main now raw = Inl (Error (str ''Bad date: '' @ d))))
   \<and> (main now raw = Inl e \<longrightarrow>
        (\<exists>d. matchGroups dateHead d = None \<and> e = Error (str ''Bad date: '' @ d)))"
  using parseFullDayUTC_fails [of s] parseFullDayUTC_value [of s m r]
    parseFullDayUTC_unknown_month [of s m r] main_bad_anchor_date [of s raw now]
    main_bad_echo_date [of raw idxs pre g now] main_bad_commit_date [of raw idxs now input' pre g]
    main_Inl [of now raw e]
  by blast

theorem parse_error_aborts_witness:
  "matchGroups dateHead (str ''Mon'' @ [9] @ str ''Jan 07 2019 00:00:00 GMT-0500 (EST)'') = None
   \<and> parseFullDayUTC (str ''Mon'' @ [9] @ str ''Jan 07 2019 00:00:00 GMT-0500 (EST)'') = Inl (Error (str ''Bad date: '' @ (str ''Mon'' @ [9] @ str ''Jan 07 2019 00:00:00 GMT-0500 (EST)'')))
   \<and> parseFullDayUTC (str ''Mon Jan 07 2019 00:00:00 GMT-0500 (EST)'') = Inr 1546819200000
   \<and> str ''Abc'' \<notin> set MON
   \<and> parseFullDayUTC (str ''Sat Abc 01 2019 00:00:00 GMT+0000 (UTC)'') = Inr (makeDay 2018 11 1 * msPerDay)
   \<and> anchors (sanitize (str ''set -e\<newline>git commit --date='' @ [39] @ str ''x'' @ [39] @ str '' -m '' @ [39]
        @ (str ''Mon'' @ [9] @ str ''Jan 07 2019 00:00:00 GMT-0500 (EST)'') @ [39]))
       = [(str ''Mon'' @ [9] @ str ''Jan 07 2019 00:00:00 GMT-0500 (EST)'')]
   \<and> (\<exists>d. matchGroups dateHead d = None \<and> main 1793664005000 (str ''set -e\<newline>git commit --date='' @ [39] @ str ''x'' @ [39] @ str '' -m '' @ [39]
        @ (str ''Mon'' @ [9] @ str ''Jan 07 2019 00:00:00 GMT-0500 (EST)'') @ [39]) = Inl (Error (str ''Bad date: '' @ d)))
   \<and> main 1793664005000 (str ''set -e\<newline>git commit --date='' @ [39] @ str ''x'' @ [39] @ str '' -m '' @ [39]
        @ (str ''Mon'' @ [9] @ str ''Jan 07 2019 00:00:00 GMT-0500 (EST)'') @ [39])
       = Inl (Error (str ''Bad date: '' @ (str ''Mon'' @ [9] @ str ''Jan 07 2019 00:00:00 GMT-0500 (EST)'')))
   \<and> anchors (sanitize (str ''set -e\<newline>echo '' @ [39] @ (str ''Mon'' @ [9] @ str ''Jan 07 2019 00:00:00 GMT-0500 (EST)'') @ [39]
        @ str '' >> foobar.txt\<newline>git commit --date='' @ [39] @ str ''x'' @ [39] @ str '' -m '' @ [39]
        @ str ''Mon Jan 07 2019 00:00:00 GMT-0500 (EST)'' @ [39]))
       = [str ''Mon Jan 07 2019 00:00:00 GMT-0500 (EST)'']
   \<and> (str ''set -e\<newline>'', [str ''echo '' @ [39], (str ''Mon'' @ [9] @ str ''Jan 07 2019 00:00:00 GMT-0500 (EST)''), [39] @ str '' >> foobar.txt''])
       \<in> set (fst (scan echoRe None (sanitize (str ''set -e\<newline>echo '' @ [39] @ (str ''Mon'' @ [9] @ str ''Jan 07 2019 00:00:00 GMT-0500 (EST)'') @ [39]
        @ str '' >> foobar.txt\<newline>git commit --date='' @ [39] @ str ''x'' @ [39] @ str '' -m '' @ [39]
        @ str ''Mon Jan 07 2019 00:00:00 GMT-0500 (EST)'' @ [39]))))
   \<and> (\<exists>d. matchGroups dateHead d = None \<and> main 1793664005000 (str ''set -e\<newline>echo '' @ [39] @ (str ''Mon'' @ [9] @ str ''Jan 07 2019 00:00:00 GMT-0500 (EST)'') @ [39]
        @ str '' >> foobar.txt\<newline>git commit --date='' @ [39] @ str ''x'' @ [39] @ str '' -m '' @ [39]
        @ str ''Mon Jan 07 2019 00:00:00 GMT-0500 (EST)'' @ [39]) = Inl (Error (str ''Bad date: '' @ d)))
   \<and> main 1793664005000 (str ''set -e\<newline>echo '' @ [39] @ (str ''Mon'' @ [9] @ str ''Jan 07 2019 00:00:00 GMT-0500 (EST)'') @ [39]
        @ str '' >> foobar.txt\<newline>git commit --date='' @ [39] @ str ''x'' @ [39] @ str '' -m '' @ [39]
        @ str ''Mon Jan 07 2019 00:00:00 GMT-0500 (EST)'' @ [39])
       = Inl (Error (str ''Bad date: '' @ (str ''Mon'' @ [9] @ str ''Jan 07 2019 00:00:00 GMT-0500 (EST)'')))
   \<and> anchors (sanitize (str ''git commit --date='' @ [39] @ str ''x'' @ [39] @ str '' -m '' @ [39]
        @ str ''Mon Jan 07 2019 00:00:00 GMT-0500 (EST)'' @ [39]
        @ str ''\<newline>  git commit --date='' @ [39] @ str ''y'' @ [39] @ str '' -m '' @ [39]
        @ (str ''Mon'' @ [9] @ str ''Jan 07 2019 00:00:00 GMT-0500 (EST)'') @ [39]))
       = [str ''Mon Jan 07 2019 00:00:00 GMT-0500 (EST)'']
   \<and> (str ''\<newline>  '', [str ''git commit --date='' @ [39], str ''y'', [39] @ str '' -m '' @ [39], (str ''Mon'' @ [9] @ str ''Jan 07 2019 00:00:00 GMT-0500 (EST)''), [39]])
       \<in> set (fst (scan commitRe None (sanitize (str ''git commit --date='' @ [39] @ str ''x'' @ [39] @ str '' -m '' @ [39]
        @ str ''Mon Jan 07 2019 00:00:00 GMT-0500 (EST)'' @ [39]
        @ str ''\<newline>  git commit --date='' @ [39] @ str ''y'' @ [39] @ str '' -m '' @ [39]
        @ (str ''Mon'' @ [9] @ str ''Jan 07 2019 00:00:00 GMT-0500 (EST)'') @ [39]))))
   \<and> (\<exists>d. matchGroups dateHead d = None \<and> main 1793664005000 (str ''git commit --date='' @ [39] @ str ''x'' @ [39] @ str '' -m '' @ [39]
        @ str ''Mon Jan 07 2019 00:00:00 GMT-0500 (EST)'' @ [39]
        @ str ''\<newline>  git commit --date='' @ [39] @ str ''y'' @ [39] @ str '' -m '' @ [39]
        @ (str ''Mon'' @ [9] @ str ''Jan 07 2019 00:00:00 GMT-0500 (EST)'') @ [39]) = Inl (Error (str ''Bad date: '' @ d)))
   \<and> main 1793664005000 (str ''git commit --date='' @ [39] @ str ''x'' @ [39] @ str '' -m '' @ [39]
        @ str ''Mon Jan 07 2019 00:00:00 GMT-0500 (EST)'' @ [39]
        @ str ''\<newline>  git commit --date='' @ [39] @ str ''y'' @ [39] @ str '' -m '' @ [39]
        @ (str ''Mon'' @ [9] @ str ''Jan 07 2019 00:00:00 GMT-0500 (EST)'') @ [39])
       = Inl (Error (str ''Bad date: '' @ (str ''Mon'' @ [9] @ str ''Jan 07 2019 00:00:00 GMT-0500 (EST)'')))"
proof -
  have b: "matchGroups dateHead (str ''Mon'' @ [9] @ str ''Jan 07 2019 00:00:00 GMT-0500 (EST)'') = None"
    by code_simp
  have g: "matchGroups dateHead (str ''Mon Jan 07 2019 00:00:00 GMT-0500 (EST)'')
      = Some ([str ''Mon'', [32], str ''Jan'', [32], str ''07'', [32], str ''2019'', [32]], str ''00:00:00 GMT-0500 (EST)'')"
    by code_simp
  have gv: "dateUTC (toNumber ([str ''Mon'', [32], str ''Jan'', [32], str ''07'', [32], str ''2019'', [32]] ! 6)) (indexOf MON ([str ''Mon'', [32], str ''Jan'', [32], str ''07'', [32], str ''2019'', [32]] ! 2)) (toNumber ([str ''Mon'', [32], str ''Jan'', [32], str ''07'', [32], str ''2019'', [32]] ! 4))
      = 1546819200000"
    by code_simp
  have a: "matchGroups dateHead (str ''Sat Abc 01 2019 00:00:00 GMT+0000 (UTC)'')
      = Some ([str ''Sat'', [32], str ''Abc'', [32], str ''01'', [32], str ''2019'', [32]], str ''00:00:00 GMT+0000 (UTC)'')"
    by code_simp
  have an: "[str ''Sat'', [32], str ''Abc'', [32], str ''01'', [32], str ''2019'', [32]] ! 2 \<notin> set MON"
    by code_simp
  have av: "makeDay ((if 0 \<le> toNumber ([str ''Sat'', [32], str ''Abc'', [32], str ''01'', [32], str ''2019'', [32]] ! 6) \<and> toNumber ([str ''Sat'', [32], str ''Abc'', [32], str ''01'', [32], str ''2019'', [32]] ! 6) \<le> 99
        then 1900 + toNumber ([str ''Sat'', [32], str ''Abc'', [32], str ''01'', [32], str ''2019'', [32]] ! 6) else toNumber ([str ''Sat'', [32], str ''Abc'', [32], str ''01'', [32], str ''2019'', [32]] ! 6)) - 1) 11 (toNumber ([str ''Sat'', [32], str ''Abc'', [32], str ''01'', [32], str ''2019'', [32]] ! 4)) * msPerDay
      = makeDay 2018 11 1 * msPerDay"
    by code_simp
  have p3: "str ''Abc'' \<notin> set MON"
    by code_simp
  have a1: "anchors (sanitize (str ''set -e\<newline>git commit --date='' @ [39] @ str ''x'' @ [39] @ str '' -m '' @ [39]
        @ (str ''Mon'' @ [9] @ str ''Jan 07 2019 00:00:00 GMT-0500 (EST)'') @ [39]))
       = [(str ''Mon'' @ [9] @ str ''Jan 07 2019 00:00:00 GMT-0500 (EST)'')]"
    by code_simp
  have m1: "main 1793664005000 (str ''set -e\<newline>git commit --date='' @ [39] @ str ''x'' @ [39] @ str '' -m '' @ [39]
        @ (str ''Mon'' @ [9] @ str ''Jan 07 2019 00:00:00 GMT-0500 (EST)'') @ [39])
       = Inl (Error (str ''Bad date: '' @ (str ''Mon'' @ [9] @ str ''Jan 07 2019 00:00:00 GMT-0500 (EST)'')))"
    by code_simp
  have a2: "anchors (sanitize (str ''set -e\<newline>echo '' @ [39] @ (str ''Mon'' @ [9] @ str ''Jan 07 2019 00:00:00 GMT-0500 (EST)'') @ [39]
        @ str '' >> foobar.txt\<newline>git commit --date='' @ [39] @ str ''x'' @ [39] @ str '' -m '' @ [39]
        @ str ''Mon Jan 07 2019 00:00:00 GMT-0500 (EST)'' @ [39]))
       = [str ''Mon Jan 07 2019 00:00:00 GMT-0500 (EST)'']"
    by code_simp
  have i2: "mapE (dayIndex (gridStartUTC 2019)) [str ''Mon Jan 07 2019 00:00:00 GMT-0500 (EST)''] = Inr [8]"
    by code_simp
  have s2: "(str ''set -e\<newline>'', [str ''echo '' @ [39], (str ''Mon'' @ [9] @ str ''Jan 07 2019 00:00:00 GMT-0500 (EST)''), [39] @ str '' >> foobar.txt''])
       \<in> set (fst (scan echoRe None (sanitize (str ''set -e\<newline>echo '' @ [39] @ (str ''Mon'' @ [9] @ str ''Jan 07 2019 00:00:00 GMT-0500 (EST)'') @ [39]
        @ str '' >> foobar.txt\<newline>git commit --date='' @ [39] @ str ''x'' @ [39] @ str '' -m '' @ [39]
        @ str ''Mon Jan 07 2019 00:00:00 GMT-0500 (EST)'' @ [39]))))"
    by code_simp
  have b2: "matchGroups dateHead ([str ''echo '' @ [39], (str ''Mon'' @ [9] @ str ''Jan 07 2019 00:00:00 GMT-0500 (EST)''), [39] @ str '' >> foobar.txt''] ! 1) = None"
    by code_simp
  have m2: "main 1793664005000 (str ''set -e\<newline>echo '' @ [39] @ (str ''Mon'' @ [9] @ str ''Jan 07 2019 00:00:00 GMT-0500 (EST)'') @ [39]
        @ str '' >> foobar.txt\<newline>git commit --date='' @ [39] @ str ''x'' @ [39] @ str '' -m '' @ [39]
        @ str ''Mon Jan 07 2019 00:00:00 GMT-0500 (EST)'' @ [39])
       = Inl (Error (str ''Bad date: '' @ (str ''Mon'' @ [9] @ str ''Jan 07 2019 00:00:00 GMT-0500 (EST)'')))"
    by code_simp
  have a3: "anchors (sanitize (str ''git commit --date='' @ [39] @ str ''x'' @ [39] @ str '' -m '' @ [39]
        @ str ''Mon Jan 07 2019 00:00:00 GMT-0500 (EST)'' @ [39]
        @ str ''\<newline>  git commit --date='' @ [39] @ str ''y'' @ [39] @ str '' -m '' @ [39]
        @ (str ''Mon'' @ [9] @ str ''Jan 07 2019 00:00:00 GMT-0500 (EST)'') @ [39]))
       = [str ''Mon Jan 07 2019 00:00:00 GMT-0500 (EST)'']"
    by code_simp
  have e3: "jsReplace echoRe (echoRepl (runRemap 1793664005000 [8])) None (sanitize (str ''git commit --date='' @ [39] @ str ''x'' @ [39] @ str '' -m '' @ [39]
        @ str ''Mon Jan 07 2019 00:00:00 GMT-0500 (EST)'' @ [39]
        @ str ''\<newline>  git commit --date='' @ [39] @ str ''y'' @ [39] @ str '' -m '' @ [39]
        @ (str ''Mon'' @ [9] @ str ''Jan 07 2019 00:00:00 GMT-0500 (EST)'') @ [39]))
      = Inr (sanitize (str ''git commit --date='' @ [39] @ str ''x'' @ [39] @ str '' -m '' @ [39]
        @ str ''Mon Jan 07 2019 00:00:00 GMT-0500 (EST)'' @ [39]
        @ str ''\<newline>  git commit --date='' @ [39] @ str ''y'' @ [39] @ str '' -m '' @ [39]
        @ (str ''Mon'' @ [9] @ str ''Jan 07 2019 00:00:00 GMT-0500 (EST)'') @ [39]))"
    by code_simp
  have s3: "(str ''\<newline>  '', [str ''git commit --date='' @ [39], str ''y'', [39] @ str '' -m '' @ [39], (str ''Mon'' @ [9] @ str ''Jan 07 2019 00:00:00 GMT-0500 (EST)''), [39]])
       \<in> set (fst (scan commitRe None (sanitize (str ''git commit --date='' @ [39] @ str ''x'' @ [39] @ str '' -m '' @ [39]
        @ str ''Mon Jan 07 2019 00:00:00 GMT-0500 (EST)'' @ [39]
        @ str ''\<newline>  git commit --date='' @ [39] @ str ''y'' @ [39] @ str '' -m '' @ [39]
        @ (str ''Mon'' @ [9] @ str ''Jan 07 2019 00:00:00 GMT-0500 (EST)'') @ [39]))))"
    by code_simp
  have b3: "matchGroups dateHead ([str ''git commit --date='' @ [39], str ''y'', [39] @ str '' -m '' @ [39], (str ''Mon'' @ [9] @ str ''Jan 07 2019 00:00:00 GMT-0500 (EST)''), [39]] ! 3) = None"
    by code_simp
  have m3: "main 1793664005000 (str ''git commit --date='' @ [39] @ str ''x'' @ [39] @ str '' -m '' @ [39]
        @ str ''Mon Jan 07 2019 00:00:00 GMT-0500 (EST)'' @ [39]
        @ str ''\<newline>  git commit --date='' @ [39] @ str ''y'' @ [39] @ str '' -m '' @ [39]
        @ (str ''Mon'' @ [9] @ str ''Jan 07 2019 00:00:00 GMT-0500 (EST)'') @ [39])
       = Inl (Error (str ''Bad date: '' @ (str ''Mon'' @ [9] @ str ''Jan 07 2019 00:00:00 GMT-0500 (EST)'')))"
    by code_simp
  from parse_error_aborts [where s = "(str ''Mon'' @ [9] @ str ''Jan 07 2019 00:00:00 GMT-0500 (EST)'')"] b
  have p1: "parseFullDayUTC (str ''Mon'' @ [9] @ str ''Jan 07 2019 00:00:00 GMT-0500 (EST)'') = Inl (Error (str ''Bad date: '' @ (str ''Mon'' @ [9] @ str ''Jan 07 2019 00:00:00 GMT-0500 (EST)'')))"
    by blast
  from parse_error_aborts [where s = "str ''Mon Jan 07 2019 00:00:00 GMT-0500 (EST)''" and m = "[str ''Mon'', [32], str ''Jan'', [32], str ''07'', [32], str ''2019'', [32]]"
      and r = "str ''00:00:00 GMT-0500 (EST)''"] g
  have "parseFullDayUTC (str ''Mon Jan 07 2019 00:00:00 GMT-0500 (EST)'')
      = Inr (dateUTC (toNumber ([str ''Mon'', [32], str ''Jan'', [32], str ''07'', [32], str ''2019'', [32]] ! 6)) (indexOf MON ([str ''Mon'', [32], str ''Jan'', [32], str ''07'', [32], str ''2019'', [32]] ! 2)) (toNumber ([str ''Mon'', [32], str ''Jan'', [32], str ''07'', [32], str ''2019'', [32]] ! 4)))"
    by blast
  then have p2: "parseFullDayUTC (str ''Mon Jan 07 2019 00:00:00 GMT-0500 (EST)'') = Inr 1546819200000"
    by (simp only: gv)
  from parse_error_aborts [where s = "str ''Sat Abc 01 2019 00:00:00 GMT+0000 (UTC)''" and m = "[str ''Sat'', [32], str ''Abc'', [32], str ''01'', [32], str ''2019'', [32]]"
      and r = "str ''00:00:00 GMT+0000 (UTC)''"] a an
  have "parseFullDayUTC (str ''Sat Abc 01 2019 00:00:00 GMT+0000 (UTC)'')
      = Inr (makeDay ((if 0 \<le> toNumber ([str ''Sat'', [32], str ''Abc'', [32], str ''01'', [32], str ''2019'', [32]] ! 6) \<and> toNumber ([str ''Sat'', [32], str ''Abc'', [32], str ''01'', [32], str ''2019'', [32]] ! 6) \<le> 99
        then 1900 + toNumber ([str ''Sat'', [32], str ''Abc'', [32], str ''01'', [32], str ''2019'', [32]] ! 6) else toNumber ([str ''Sat'', [32], str ''Abc'', [32], str ''01'', [32], str ''2019'', [32]] ! 6)) - 1) 11 (toNumber ([str ''Sat'', [32], str ''Abc'', [32], str ''01'', [32], str ''2019'', [32]] ! 4)) * msPerDay)"
    by blast
  then have p4: "parseFullDayUTC (str ''Sat Abc 01 2019 00:00:00 GMT+0000 (UTC)'') = Inr (makeDay 2018 11 1 * msPerDay)"
    by (simp only: av)
  from a1 have t1: "(str ''Mon'' @ [9] @ str ''Jan 07 2019 00:00:00 GMT-0500 (EST)'') \<in> set (anchors (sanitize (str ''set -e\<newline>git commit --date='' @ [39] @ str ''x'' @ [39] @ str '' -m '' @ [39]
        @ (str ''Mon'' @ [9] @ str ''Jan 07 2019 00:00:00 GMT-0500 (EST)'') @ [39])))"
    by simp
  from parse_error_aborts [where s = "(str ''Mon'' @ [9] @ str ''Jan 07 2019 00:00:00 GMT-0500 (EST)'')" and raw = "(str ''set -e\<newline>git commit --date='' @ [39] @ str ''x'' @ [39] @ str '' -m '' @ [39]
        @ (str ''Mon'' @ [9] @ str ''Jan 07 2019 00:00:00 GMT-0500 (EST)'') @ [39])" and now = 1793664005000] t1 b
  have x1: "(\<exists>d. matchGroups dateHead d = None \<and> main 1793664005000 (str ''set -e\<newline>git commit --date='' @ [39] @ str ''x'' @ [39] @ str '' -m '' @ [39]
        @ (str ''Mon'' @ [9] @ str ''Jan 07 2019 00:00:00 GMT-0500 (EST)'') @ [39]) = Inl (Error (str ''Bad date: '' @ d)))"
    by blast
  from a2 have n2: "anchors (sanitize (str ''set -e\<newline>echo '' @ [39] @ (str ''Mon'' @ [9] @ str ''Jan 07 2019 00:00:00 GMT-0500 (EST)'') @ [39]
        @ str '' >> foobar.txt\<newline>git commit --date='' @ [39] @ str ''x'' @ [39] @ str '' -m '' @ [39]
        @ str ''Mon Jan 07 2019 00:00:00 GMT-0500 (EST)'' @ [39])) \<noteq> []"
    by simp
  from a2 i2 have j2: "mapE (dayIndex (gridStartUTC 2019)) (anchors (sanitize (str ''set -e\<newline>echo '' @ [39] @ (str ''Mon'' @ [9] @ str ''Jan 07 2019 00:00:00 GMT-0500 (EST)'') @ [39]
        @ str '' >> foobar.txt\<newline>git commit --date='' @ [39] @ str ''x'' @ [39] @ str '' -m '' @ [39]
        @ str ''Mon Jan 07 2019 00:00:00 GMT-0500 (EST)'' @ [39]))) = Inr [8]"
    by simp
  from parse_error_aborts [where raw = "(str ''set -e\<newline>echo '' @ [39] @ (str ''Mon'' @ [9] @ str ''Jan 07 2019 00:00:00 GMT-0500 (EST)'') @ [39]
        @ str '' >> foobar.txt\<newline>git commit --date='' @ [39] @ str ''x'' @ [39] @ str '' -m '' @ [39]
        @ str ''Mon Jan 07 2019 00:00:00 GMT-0500 (EST)'' @ [39])" and now = 1793664005000 and idxs = "[8]"
      and pre = "str ''set -e\<newline>''" and g = "[str ''echo '' @ [39], (str ''Mon'' @ [9] @ str ''Jan 07 2019 00:00:00 GMT-0500 (EST)''), [39] @ str '' >> foobar.txt'']"] n2 j2 s2 b2
  have x2: "(\<exists>d. matchGroups dateHead d = None \<and> main 1793664005000 (str ''set -e\<newline>echo '' @ [39] @ (str ''Mon'' @ [9] @ str ''Jan 07 2019 00:00:00 GMT-0500 (EST)'') @ [39]
        @ str '' >> foobar.txt\<newline>git commit --date='' @ [39] @ str ''x'' @ [39] @ str '' -m '' @ [39]
        @ str ''Mon Jan 07 2019 00:00:00 GMT-0500 (EST)'' @ [39]) = Inl (Error (str ''Bad date: '' @ d)))"
    by blast
  from a3 have n3: "anchors (sanitize (str ''git commit --date='' @ [39] @ str ''x'' @ [39] @ str '' -m '' @ [39]
        @ str ''Mon Jan 07 2019 00:00:00 GMT-0500 (EST)'' @ [39]
        @ str ''\<newline>  git commit --date='' @ [39] @ str ''y'' @ [39] @ str '' -m '' @ [39]
        @ (str ''Mon'' @ [9] @ str ''Jan 07 2019 00:00:00 GMT-0500 (EST)'') @ [39])) \<noteq> []"
    by simp
  from a3 i2 have j3: "mapE (dayIndex (gridStartUTC 2019)) (anchors (sanitize (str ''git commit --date='' @ [39] @ str ''x'' @ [39] @ str '' -m '' @ [39]
        @ str ''Mon Jan 07 2019 00:00:00 GMT-0500 (EST)'' @ [39]
        @ str ''\<newline>  git commit --date='' @ [39] @ str ''y'' @ [39] @ str '' -m '' @ [39]
        @ (str ''Mon'' @ [9] @ str ''Jan 07 2019 00:00:00 GMT-0500 (EST)'') @ [39]))) = Inr [8]"
    by simp
  from parse_error_aborts [where raw = "(str ''git commit --date='' @ [39] @ str ''x'' @ [39] @ str '' -m '' @ [39]
        @ str ''Mon Jan 07 2019 00:00:00 GMT-0500 (EST)'' @ [39]
        @ str ''\<newline>  git commit --date='' @ [39] @ str ''y'' @ [39] @ str '' -m '' @ [39]
        @ (str ''Mon'' @ [9] @ str ''Jan 07 2019 00:00:00 GMT-0500 (EST)'') @ [39])" and now = 1793664005000 and idxs = "[8]"
      and input' = "sanitize (str ''git commit --date='' @ [39] @ str ''x'' @ [39] @ str '' -m '' @ [39]
        @ str ''Mon Jan 07 2019 00:00:00 GMT-0500 (EST)'' @ [39]
        @ str ''\<newline>  git commit --date='' @ [39] @ str ''y'' @ [39] @ str '' -m '' @ [39]
        @ (str ''Mon'' @ [9] @ str ''Jan 07 2019 00:00:00 GMT-0500 (EST)'') @ [39])"
      and pre = "str ''\<newline>  ''" and g = "[str ''git commit --date='' @ [39], str ''y'', [39] @ str '' -m '' @ [39], (str ''Mon'' @ [9] @ str ''Jan 07 2019 00:00:00 GMT-0500 (EST)''), [39]]"] n3 j3 e3 s3 b3
  have x3: "(\<exists>d. matchGroups dateHead d = None \<and> main 1793664005000 (str ''git commit --date='' @ [39] @ str ''x'' @ [39] @ str '' -m '' @ [39]
        @ str ''Mon Jan 07 2019 00:00:00 GMT-0500 (EST)'' @ [39]
        @ str ''\<newline>  git commit --date='' @ [39] @ str ''y'' @ [39] @ str '' -m '' @ [39]
        @ (str ''Mon'' @ [9] @ str ''Jan 07 2019 00:00:00 GMT-0500 (EST)'') @ [39]) = Inl (Error (str ''Bad date: '' @ d)))"
    by blast
  from b p1 p2 p3 p4 a1 x1 m1 a2 s2 x2 m2 a3 s3 x3 m3 show ?thesis
    by (intro conjI)
qed

text \<open>
  Claim C6 as stated fails for a month name that is not in the table of twelve:
  \<^verbatim>\<open>indexOf\<close> yields \<open>-1\<close>, \<^verbatim>\<open>Date.UTC\<close> reads month \<open>-1\<close> of 2019 as December 2018,
  no exception is thrown and the run writes its output.
\<close>

theorem parse_error_counterexample:
  "indexOf MON (str ''Abc'') = - 1
   \<and> parseFullDayUTC (str ''Sat Abc 01 2019 00:00:00 GMT+0000 (UTC)'') = Inr 1543622400000
   \<and> main 1793664005000 (str ''git commit --date='' @ [39] @ str ''x'' @ [39] @ str '' -m '' @ [39]
         @ str ''Sat Abc 01 2019 00:00:00 GMT+0000 (UTC)'' @ [39])
       = Inr (str ''git commit --date='' @ [39] @ str ''Sat May 02 2026 12:00:00 GMT+0000 (UTC)''
              @ [39] @ str '' -m '' @ [39] @ str ''Sat May 02 2026 12:00:00 GMT+0000 (UTC)'' @ [39])"
  by code_simp

subsection \<open>No anchors\<close>

text \<open>
  Claim C7. When the anchor extractor finds no commit-message date in the sanitized
  text, the run ends normally and writes the sanitized text, unchanged.
\<close>

theorem main_no_anchors:
  "anchors (sanitize raw) = [] \<Longrightarrow> main now raw = Inr (sanitize raw)"
  by (simp add: main_def Let_def)

theorem main_no_anchors_witness:
  "anchors (sanitize (str ''mkdir github_painter\<newline>git init\<newline>git remote add origin x\<newline>git pull origin main'')) = []
   \<and> main 1793664005000 (str ''mkdir github_painter\<newline>git init\<newline>git remote add origin x\<newline>git pull origin main'')
       = Inr (str ''\<newline>\<newline>\<newline>'')"
proof -
  have a: "anchors (sanitize (str ''mkdir github_painter\<newline>git init\<newline>git remote add origin x\<newline>git pull origin main'')) = []"
    by code_simp
  have s: "sanitize (str ''mkdir github_painter\<newline>git init\<newline>git remote add origin x\<newline>git pull origin main'') = str ''\<newline>\<newline>\<newline>''"
    by code_simp
  show ?thesis
    using main_no_anchors [OF a, of 1793664005000] a s by simp
qed

subsection \<open>The sanitizer\<close>

text \<open>
  A pass of the sanitizer, line by line. On a line that no \<^verbatim>\<open>\s+\<close> crosses, matching an
  expression in the text is matching it on the line alone.
\<close>

lemma lit_line:
  assumes w: "\<forall>c\<in>set w. \<not> isLineTerminator c" and t: "isLineTerminator t"
  shows "matchAtom (Lit w) (l @ t # rest) = map_option (\<lambda>r. r @ t # rest) (matchAtom (Lit w) l)"
proof (cases "length w \<le> length l")
  case True
  then show ?thesis by simp
next
  case False
  then have len: "length l < length w" by simp
  have "take (length w) (l @ t # rest) \<noteq> w"
  proof
    assume e: "take (length w) (l @ t # rest) = w"
    have "take (length w) (l @ t # rest) ! length l = t"
      using len by (simp add: nth_append)
    with e have "w ! length l = t" by simp
    with len have "t \<in> set w" by (metis nth_mem)
    with w t show False by blast
  qed
  moreover from len have "take (length w) l \<noteq> w" by auto
  ultimately show ?thesis by simp
qed

lemma plus_line:
  assumes "\<not> list_all isWhiteSpace l"
  shows "matchAtom (Plus isWhiteSpace) (l @ t # rest)
    = map_option (\<lambda>r. r @ t # rest) (matchAtom (Plus isWhiteSpace) l)"
proof (cases l)
  case Nil
  with assms show ?thesis by simp
next
  case (Cons c l')
  show ?thesis
  proof (cases "isWhiteSpace c")
    case True
    with assms Cons obtain x where "x \<in> set l'" and "\<not> isWhiteSpace x"
      by (auto simp: list_all_iff)
    then have "dropWhile isWhiteSpace (l' @ t # rest) = dropWhile isWhiteSpace l' @ t # rest"
      by (rule dropWhile_append1)
    with True Cons show ?thesis by simp
  next
    case False
    with Cons show ?thesis by simp
  qed
qed

lemma tail_line:
  assumes "\<forall>c\<in>set l. \<not> isLineTerminator c" and "isLineTerminator t"
  shows "matchSeq [Star notLineTerminator, Eol] (l @ t # rest) = Some (t # rest)"
proof -
  from assms(1) have "dropWhile notLineTerminator (l @ t # rest) = dropWhile notLineTerminator (t # rest)"
    by (intro dropWhile_append2) (simp add: notLineTerminator_def)
  with assms(2) have b: "dropWhile notLineTerminator (l @ t # rest) = t # rest"
    by (simp add: notLineTerminator_def)
  show ?thesis by (simp add: b assms(2))
qed

lemma tail_final:
  assumes "\<forall>c\<in>set l. \<not> isLineTerminator c"
  shows "matchSeq [Star notLineTerminator, Eol] l = Some []"
proof -
  from assms have a: "dropWhile notLineTerminator l = []"
    by (simp add: notLineTerminator_def)
  show ?thesis by (simp add: a)
qed

lemma matchAtom_set: "matchAtom a cs = Some r \<Longrightarrow> set r \<subseteq> set cs"
  using matchAtom_suffix by fastforce

lemma tailRe_line:
  assumes "\<forall>c\<in>set l. \<not> isLineTerminator c" and "isLineTerminator t"
    and "\<forall>w\<in>set ws. \<forall>c\<in>set w. \<not> isLineTerminator c"
    and "\<not> crossesLine (tailRe ws) l"
  shows "matchSeq (tailRe ws) (l @ t # rest) = map_option (\<lambda>r. r @ t # rest) (matchSeq (tailRe ws) l)"
  using assms
proof (induction ws arbitrary: l)
  case Nil
  then show ?case using tail_line [of l t rest] tail_final [of l] by simp
next
  case (Cons w ws)
  from Cons.prems(4) have nall: "\<not> list_all isWhiteSpace l" by simp
  note p = plus_line [OF nall, of t rest]
  show ?case
  proof (cases "matchAtom (Plus isWhiteSpace) l")
    case None
    with p show ?thesis by simp
  next
    case (Some r1)
    from matchAtom_set [OF Some] Cons.prems(1) have r1: "\<forall>c\<in>set r1. \<not> isLineTerminator c" by blast
    from Cons.prems(3) have w: "\<forall>c\<in>set w. \<not> isLineTerminator c" by simp
    note q = lit_line [OF w Cons.prems(2), of r1 rest]
    show ?thesis
    proof (cases "matchAtom (Lit w) r1")
      case None
      with p q Some show ?thesis by simp
    next
      case (Some r2)
      from matchAtom_set [OF Some] r1 have r2: "\<forall>c\<in>set r2. \<not> isLineTerminator c" by blast
      from Cons.prems(4) \<open>matchAtom (Plus isWhiteSpace) l = Some r1\<close> Some
      have nc: "\<not> crossesLine (tailRe ws) r2" by simp
      from Cons.prems(3) have ws: "\<forall>w\<in>set ws. \<forall>c\<in>set w. \<not> isLineTerminator c" by simp
      from Cons.IH [OF r2 Cons.prems(2) ws nc] p q Some \<open>matchAtom (Plus isWhiteSpace) l = Some r1\<close>
      show ?thesis by simp
    qed
  qed
qed

lemma tailRe_full:
  assumes "\<forall>c\<in>set l. \<not> isLineTerminator c" and "matchSeq (tailRe ws) l = Some r"
  shows "r = []"
  using assms
proof (induction ws arbitrary: l)
  case Nil
  with tail_final [of l] show ?case by simp
next
  case (Cons w ws)
  from Cons.prems(2) obtain r1 r2 where a: "matchAtom (Plus isWhiteSpace) l = Some r1"
    and b: "matchAtom (Lit w) r1 = Some r2" and c: "matchSeq (tailRe ws) r2 = Some r"
    by (auto split: option.splits)
  from matchAtom_set [OF a] matchAtom_set [OF b] Cons.prems(1)
  have "\<forall>c\<in>set r2. \<not> isLineTerminator c" by blast
  from Cons.IH [OF this c] show ?case .
qed

lemma wordsRe_line:
  assumes "\<forall>c\<in>set l. \<not> isLineTerminator c" and "isLineTerminator t"
    and "\<forall>w\<in>set (w0 # ws). \<forall>c\<in>set w. \<not> isLineTerminator c"
    and "\<not> crossesLine (wordsRe w0 ws) l"
  shows "matchSeq (wordsRe w0 ws) (l @ t # rest)
    = map_option (\<lambda>r. r @ t # rest) (matchSeq (wordsRe w0 ws) l)"
proof -
  from assms(3) have w: "\<forall>c\<in>set w0. \<not> isLineTerminator c"
    and ws: "\<forall>w\<in>set ws. \<forall>c\<in>set w. \<not> isLineTerminator c" by simp_all
  note q = lit_line [OF w assms(2), of l rest]
  show ?thesis
  proof (cases "matchAtom (Lit w0) l")
    case None
    with q show ?thesis by (simp add: wordsRe_def)
  next
    case (Some r1)
    from matchAtom_set [OF Some] assms(1) have r1: "\<forall>c\<in>set r1. \<not> isLineTerminator c" by blast
    from assms(4) Some have "\<not> crossesLine (tailRe ws) r1" by (simp add: wordsRe_def)
    from tailRe_line [OF r1 assms(2) ws this, of rest] q Some show ?thesis
      by (simp add: wordsRe_def)
  qed
qed

lemma wordsRe_full:
  assumes "\<forall>c\<in>set l. \<not> isLineTerminator c" and "matchSeq (wordsRe w0 ws) l = Some r"
  shows "r = []"
proof -
  from assms(2) obtain r1 where a: "matchAtom (Lit w0) l = Some r1"
    and b: "matchSeq (tailRe ws) r1 = Some r"
    by (auto simp: wordsRe_def split: option.splits)
  from matchAtom_set [OF a] assms(1) have "\<forall>c\<in>set r1. \<not> isLineTerminator c" by blast
  from tailRe_full [OF this b] show ?thesis .
qed

lemma jsReplaceStr_empty: "jsReplaceStr re [] prev [] = []"
  by (simp split: option.splits)

lemma scan_inside_line:
  assumes "\<not> atLineStart prev" and "\<forall>c\<in>set l. \<not> isLineTerminator c"
  shows "jsReplaceStr (anchored gs) r prev (l @ rest)
    = l @ jsReplaceStr (anchored gs) r (if l = [] then prev else Some (last l)) rest"
  using assms
proof (induction l arbitrary: prev)
  case Nil
  then show ?case by simp
next
  case (Cons c l)
  from Cons.prems(2) have c: "\<not> atLineStart (Some c)" by (simp add: atLineStart_def)
  from Cons.prems(2) have l: "\<forall>c\<in>set l. \<not> isLineTerminator c" by simp
  from Cons.prems(1) have "anchored gs prev ((c # l) @ rest) = None" by (simp add: anchored_def)
  then have "jsReplaceStr (anchored gs) r prev ((c # l) @ rest)
      = c # jsReplaceStr (anchored gs) r (Some c) (l @ rest)"
    by simp
  also have "\<dots> = c # l @ jsReplaceStr (anchored gs) r (if l = [] then Some c else Some (last l)) rest"
    using Cons.IH [OF c l] by simp
  finally show ?case by simp
qed

lemma jsReplaceStr_at_match:
  assumes "re prev cs = Some g" and "concat g \<noteq> []" and "cs = concat g @ rest"
  shows "jsReplaceStr re r prev cs = r @ jsReplaceStr re r (Some (last (concat g))) rest"
proof -
  from assms(2) obtain c m where m: "concat g = c # m" by (cases "concat g") auto
  with assms(3) have cs: "cs = c # (m @ rest)" by simp
  have d: "drop (length (concat g) - 1) (m @ rest) = rest" using m by simp
  have ne: "(concat g = []) = False" using assms(2) by simp
  have re: "re prev (c # (m @ rest)) = Some g" using assms(1) cs by simp
  show ?thesis
    unfolding cs jsReplaceStr.simps re option.case ne if_False d by (rule refl)
qed

lemma anchored_single:
  "anchored [re] prev cs =
     (if atLineStart prev
      then (case matchSeq re cs of None \<Rightarrow> None | Some r \<Rightarrow> Some [take (length cs - length r) cs])
      else None)"
  by (simp add: anchored_def split: option.splits)

lemma terminator_step:
  assumes "\<not> atLineStart prev"
  shows "jsReplaceStr (anchored gs) r prev (t # T) = t # jsReplaceStr (anchored gs) r (Some t) T"
  using assms by (simp add: anchored_def)

lemma line_step:
  assumes wf: "\<forall>w\<in>set (w0 # ws). \<forall>c\<in>set w. \<not> isLineTerminator c" and w0: "w0 \<noteq> []"
    and l: "\<forall>c\<in>set l. \<not> isLineTerminator c" and t: "isLineTerminator t"
    and nc: "\<not> crossesLine (wordsRe w0 ws) l" and prev: "atLineStart prev"
  shows "jsReplaceStr (anchored [wordsRe w0 ws]) [] prev (l @ t # T)
    = (if matchSeq (wordsRe w0 ws) l \<noteq> None then [] else l)
        @ t # jsReplaceStr (anchored [wordsRe w0 ws]) [] (Some t) T"
proof (cases "matchSeq (wordsRe w0 ws) l")
  case None
  with wordsRe_line [OF l t wf nc, of T] have "matchSeq (wordsRe w0 ws) (l @ t # T) = None"
    by simp
  then have no: "anchored [wordsRe w0 ws] prev (l @ t # T) = None"
    by (simp add: anchored_single)
  show ?thesis
  proof (cases l)
    case Nil
    with no None show ?thesis by simp
  next
    case (Cons c l')
    from l Cons have c: "\<not> atLineStart (Some c)" and l': "\<forall>c\<in>set l'. \<not> isLineTerminator c"
      by (simp_all add: atLineStart_def)
    from l Cons have p: "\<not> atLineStart (if l' = [] then Some c else Some (last l'))"
      by (auto simp: atLineStart_def)
    from no Cons have "jsReplaceStr (anchored [wordsRe w0 ws]) [] prev (l @ t # T)
        = c # jsReplaceStr (anchored [wordsRe w0 ws]) [] (Some c) (l' @ t # T)"
      by simp
    also have "\<dots> = c # l' @ jsReplaceStr (anchored [wordsRe w0 ws]) []
        (if l' = [] then Some c else Some (last l')) (t # T)"
      by (simp only: scan_inside_line [OF c l'])
    also have "\<dots> = c # l' @ t # jsReplaceStr (anchored [wordsRe w0 ws]) [] (Some t) T"
      by (simp only: terminator_step [OF p])
    finally show ?thesis using None Cons by simp
  qed
next
  case (Some r)
  from wordsRe_full [OF l Some] have r: "r = []" .
  from Some r have "length ([]::jsstring) < length l"
    unfolding wordsRe_def by (intro matchSeq_Lit_nonempty [OF _ w0]) simp
  then have ne: "l \<noteq> []" by auto
  from wordsRe_line [OF l t wf nc, of T] Some r
  have "matchSeq (wordsRe w0 ws) (l @ t # T) = Some (t # T)" by simp
  with prev have m: "anchored [wordsRe w0 ws] prev (l @ t # T) = Some [l]"
    by (simp add: anchored_single)
  from l ne have p: "\<not> atLineStart (Some (last (concat [l])))"
    by (simp add: atLineStart_def)
  have "jsReplaceStr (anchored [wordsRe w0 ws]) [] prev (l @ t # T)
      = [] @ jsReplaceStr (anchored [wordsRe w0 ws]) [] (Some (last (concat [l]))) (t # T)"
    by (rule jsReplaceStr_at_match [of "anchored [wordsRe w0 ws]" prev "l @ t # T" "[l]" "t # T", OF m])
      (use ne in simp_all)
  also have "\<dots> = t # jsReplaceStr (anchored [wordsRe w0 ws]) [] (Some t) T"
    by (simp only: terminator_step [OF p] append_Nil)
  finally show ?thesis using Some by simp
qed

lemma final_step:
  assumes w0: "w0 \<noteq> []" and l: "\<forall>c\<in>set l. \<not> isLineTerminator c" and prev: "atLineStart prev"
  shows "jsReplaceStr (anchored [wordsRe w0 ws]) [] prev l
    = (if matchSeq (wordsRe w0 ws) l \<noteq> None then [] else l)"
proof (cases "matchSeq (wordsRe w0 ws) l")
  case None
  then have no: "anchored [wordsRe w0 ws] prev l = None"
    by (simp add: anchored_single)
  show ?thesis
  proof (cases l)
    case Nil
    then show ?thesis by (simp split: option.splits)
  next
    case (Cons c l')
    from l Cons have c: "\<not> atLineStart (Some c)" and l': "\<forall>c\<in>set l'. \<not> isLineTerminator c"
      by (simp_all add: atLineStart_def)
    from no Cons have "jsReplaceStr (anchored [wordsRe w0 ws]) [] prev l
        = c # jsReplaceStr (anchored [wordsRe w0 ws]) [] (Some c) (l' @ [])"
      by simp
    also have "\<dots> = c # l' @ jsReplaceStr (anchored [wordsRe w0 ws]) []
        (if l' = [] then Some c else Some (last l')) []"
      by (simp only: scan_inside_line [OF c l'])
    finally show ?thesis using None Cons by (simp split: option.splits)
  qed
next
  case (Some r)
  from wordsRe_full [OF l Some] have r: "r = []" .
  from Some r have "length ([]::jsstring) < length l"
    unfolding wordsRe_def by (intro matchSeq_Lit_nonempty [OF _ w0]) simp
  then have ne: "l \<noteq> []" by auto
  from prev Some r have m: "anchored [wordsRe w0 ws] prev l = Some [l]"
    by (simp add: anchored_single)
  have "jsReplaceStr (anchored [wordsRe w0 ws]) [] prev l
      = [] @ jsReplaceStr (anchored [wordsRe w0 ws]) [] (Some (last (concat [l]))) []"
    by (rule jsReplaceStr_at_match [of "anchored [wordsRe w0 ws]" prev l "[l]" "[]", OF m])
      (use ne in simp_all)
  then show ?thesis using Some by (simp split: option.splits)
qed

lemma pass_lines:
  assumes wf: "\<forall>w\<in>set (w0 # ws). \<forall>c\<in>set w. \<not> isLineTerminator c" and w0: "w0 \<noteq> []"
    and ls: "\<forall>p\<in>set ls. (\<forall>c\<in>set (fst p). \<not> isLineTerminator c) \<and> isLineTerminator (snd p)
               \<and> \<not> crossesLine (wordsRe w0 ws) (fst p)"
    and final: "\<forall>c\<in>set final. \<not> isLineTerminator c" and prev: "atLineStart prev"
  shows "jsReplaceStr (anchored [wordsRe w0 ws]) [] prev (joinLines ls final)
    = joinLines
        (map (\<lambda>q. (if matchSeq (wordsRe w0 ws) (fst q) \<noteq> None then [] else fst q, snd q)) ls)
        (if matchSeq (wordsRe w0 ws) final \<noteq> None then [] else final)"
  using ls prev
proof (induction ls arbitrary: prev)
  case Nil
  then show ?case using final_step [OF w0 final] by simp
next
  case (Cons p ls)
  obtain l t where p: "p = (l, t)" by (cases p)
  from Cons.prems(1) p have l: "\<forall>c\<in>set l. \<not> isLineTerminator c" and t: "isLineTerminator t"
    and nc: "\<not> crossesLine (wordsRe w0 ws) l" by simp_all
  from t have st: "atLineStart (Some t)" by (simp add: atLineStart_def)
  from Cons.prems(1) have rest: "\<forall>p\<in>set ls. (\<forall>c\<in>set (fst p). \<not> isLineTerminator c)
      \<and> isLineTerminator (snd p) \<and> \<not> crossesLine (wordsRe w0 ws) (fst p)"
    by simp
  show ?case
    unfolding p joinLines.simps
    by (simp only: line_step [OF wf w0 l t nc Cons.prems(2)] Cons.IH [OF rest st])
      simp
qed

lemma wordsRe_empty:
  assumes "w0 \<noteq> []"
  shows "matchSeq (wordsRe w0 ws) [] = None" and "\<not> crossesLine (wordsRe w0 ws) []"
  using assms by (simp_all add: wordsRe_def)

lemma blank_twice:
  assumes "\<not> list_ex (\<lambda>r. matchSeq r [] \<noteq> None) res"
  shows "(if list_ex (\<lambda>r. matchSeq r (if matchSeq re l \<noteq> None then [] else l) \<noteq> None) res
          then [] else (if matchSeq re l \<noteq> None then [] else l))
    = (if list_ex (\<lambda>r. matchSeq r l \<noteq> None) (re # res) then [] else l)"
proof (cases "matchSeq re l \<noteq> None")
  case True
  then show ?thesis by simp
next
  case False
  then show ?thesis by simp
qed

lemma passes_lines:
  assumes "\<forall>p\<in>set wss. fst p \<noteq> [] \<and> (\<forall>w\<in>set (fst p # snd p). \<forall>c\<in>set w. \<not> isLineTerminator c)"
    and "\<forall>q\<in>set ls. (\<forall>c\<in>set (fst q). \<not> isLineTerminator c) \<and> isLineTerminator (snd q)
           \<and> (\<forall>p\<in>set wss. \<not> crossesLine (wordsRe (fst p) (snd p)) (fst q))"
    and "\<forall>c\<in>set final. \<not> isLineTerminator c"
  shows "foldl (\<lambda>input re. jsReplaceStr (anchored [re]) [] None input) (joinLines ls final)
          (map (\<lambda>p. wordsRe (fst p) (snd p)) wss)
    = joinLines
        (map (\<lambda>q. (if list_ex (\<lambda>re. matchSeq re (fst q) \<noteq> None)
                          (map (\<lambda>p. wordsRe (fst p) (snd p)) wss) then [] else fst q, snd q)) ls)
        (if list_ex (\<lambda>re. matchSeq re final \<noteq> None) (map (\<lambda>p. wordsRe (fst p) (snd p)) wss)
         then [] else final)"
  using assms
proof (induction wss arbitrary: ls final)
  case Nil
  show ?case by simp
next
  case (Cons p wss)
  let ?re = "wordsRe (fst p) (snd p)"
  let ?res = "map (\<lambda>p. wordsRe (fst p) (snd p)) wss"
  let ?b = "\<lambda>l. if matchSeq ?re l \<noteq> None then [] else l"
  let ?ls = "map (\<lambda>q. (?b (fst q), snd q)) ls"
  from Cons.prems(1) have w0: "fst p \<noteq> []"
    and wf: "\<forall>w\<in>set (fst p # snd p). \<forall>c\<in>set w. \<not> isLineTerminator c"
    and wss: "\<forall>p\<in>set wss. fst p \<noteq> [] \<and> (\<forall>w\<in>set (fst p # snd p). \<forall>c\<in>set w. \<not> isLineTerminator c)"
    by simp_all
  have ls1: "\<forall>q\<in>set ls. (\<forall>c\<in>set (fst q). \<not> isLineTerminator c) \<and> isLineTerminator (snd q)
      \<and> \<not> crossesLine ?re (fst q)"
  proof
    fix q assume "q \<in> set ls"
    with Cons.prems(2) show "(\<forall>c\<in>set (fst q). \<not> isLineTerminator c) \<and> isLineTerminator (snd q)
      \<and> \<not> crossesLine ?re (fst q)"
      by simp
  qed
  have start: "atLineStart None" by (simp add: atLineStart_def)
  have pass: "jsReplaceStr (anchored [?re]) [] None (joinLines ls final) = joinLines ?ls (?b final)"
    by (rule pass_lines [OF wf w0 ls1 Cons.prems(3) start])
  have ls2: "\<forall>q\<in>set ?ls. (\<forall>c\<in>set (fst q). \<not> isLineTerminator c) \<and> isLineTerminator (snd q)
      \<and> (\<forall>p\<in>set wss. \<not> crossesLine (wordsRe (fst p) (snd p)) (fst q))"
  proof
    fix q assume "q \<in> set ?ls"
    then obtain q0 where q0: "q0 \<in> set ls" and q: "q = (?b (fst q0), snd q0)"
      by (auto simp only: set_map)
    from Cons.prems(2) q0 have a: "\<forall>c\<in>set (fst q0). \<not> isLineTerminator c"
      and b: "isLineTerminator (snd q0)"
      and c: "\<forall>p\<in>set wss. \<not> crossesLine (wordsRe (fst p) (snd p)) (fst q0)"
      by simp_all
    have e: "\<forall>p\<in>set wss. \<not> crossesLine (wordsRe (fst p) (snd p)) []"
      using wss wordsRe_empty(2) by blast
    show "(\<forall>c\<in>set (fst q). \<not> isLineTerminator c) \<and> isLineTerminator (snd q)
      \<and> (\<forall>p\<in>set wss. \<not> crossesLine (wordsRe (fst p) (snd p)) (fst q))"
    proof (cases "matchSeq ?re (fst q0) \<noteq> None")
      case True
      with q b e show ?thesis by simp
    next
      case False
      with q a b c show ?thesis by simp
    qed
  qed
  have final2: "\<forall>c\<in>set (?b final). \<not> isLineTerminator c"
    using Cons.prems(3) by simp
  have none: "\<not> list_ex (\<lambda>r. matchSeq r [] \<noteq> None) ?res"
  proof
    assume "list_ex (\<lambda>r. matchSeq r [] \<noteq> None) ?res"
    then obtain p' where "p' \<in> set wss" and m: "matchSeq (wordsRe (fst p') (snd p')) [] \<noteq> None"
      by (auto simp: list_ex_iff)
    with wss have "fst p' \<noteq> []" by blast
    from wordsRe_empty(1) [OF this, of "snd p'"] m show False by simp
  qed
  note blank = blank_twice [OF none, of ?re]
  have "foldl (\<lambda>input re. jsReplaceStr (anchored [re]) [] None input) (joinLines ls final)
        (map (\<lambda>p. wordsRe (fst p) (snd p)) (p # wss))
      = foldl (\<lambda>input re. jsReplaceStr (anchored [re]) [] None input) (joinLines ?ls (?b final)) ?res"
    by (simp only: list.map foldl_Cons pass)
  also have "\<dots> = joinLines
      (map (\<lambda>q. (if list_ex (\<lambda>re. matchSeq re (fst q) \<noteq> None) ?res then [] else fst q, snd q)) ?ls)
      (if list_ex (\<lambda>re. matchSeq re (?b final) \<noteq> None) ?res then [] else ?b final)"
    by (rule Cons.IH [OF wss ls2 final2])
  also have "\<dots> = joinLines
      (map (\<lambda>q. (if list_ex (\<lambda>re. matchSeq re (fst q) \<noteq> None) (?re # ?res) then [] else fst q, snd q)) ls)
      (if list_ex (\<lambda>re. matchSeq re final \<noteq> None) (?re # ?res) then [] else final)"
    by (simp only: map_map o_def fst_conv snd_conv blank)
  finally show ?case by (simp only: list.map)
qed

lemma splitLines_props:
  "splitLines raw = (ls, final) \<Longrightarrow>
     raw = joinLines ls final
     \<and> (\<forall>p\<in>set ls. (\<forall>c\<in>set (fst p). \<not> isLineTerminator c) \<and> isLineTerminator (snd p))
     \<and> (\<forall>c\<in>set final. \<not> isLineTerminator c)"
proof (induction raw arbitrary: ls final)
  case Nil
  then show ?case by simp
next
  case (Cons c cs)
  obtain ls' final' where s: "splitLines cs = (ls', final')" by (cases "splitLines cs")
  note ih = Cons.IH [OF s]
  show ?case
  proof (cases "isLineTerminator c")
    case True
    with Cons.prems s ih show ?thesis by auto
  next
    case False
    show ?thesis
    proof (cases ls')
      case Nil
      with Cons.prems s ih False show ?thesis by auto
    next
      case (Cons p ps)
      with \<open>splitLines (c # cs) = (ls, final)\<close> s ih False show ?thesis
        by (cases p) auto
    qed
  qed
qed

lemma dropPatterns_words: "dropPatterns = map (\<lambda>p. wordsRe (fst p) (snd p)) dropWords"
  by (simp add: dropPatterns_def dropWords_def wordsRe_def)

lemma dropWords_wf:
  "\<forall>p\<in>set dropWords. fst p \<noteq> [] \<and> (\<forall>w\<in>set (fst p # snd p). \<forall>c\<in>set w. \<not> isLineTerminator c)"
  by (simp add: dropWords_def str_def isLineTerminator_def)

lemma sanitize_lines:
  assumes "\<forall>l\<in>set (terminatedLines raw). \<not> crossing l"
  shows "sanitize raw = blankSetupLines raw"
proof -
  obtain ls final where s: "splitLines raw = (ls, final)" by (cases "splitLines raw")
  from splitLines_props [OF s] have raw: "raw = joinLines ls final"
    and ls: "\<forall>q\<in>set ls. (\<forall>c\<in>set (fst q). \<not> isLineTerminator c) \<and> isLineTerminator (snd q)"
    and final: "\<forall>c\<in>set final. \<not> isLineTerminator c"
    by simp_all
  have ls': "\<forall>q\<in>set ls. (\<forall>c\<in>set (fst q). \<not> isLineTerminator c) \<and> isLineTerminator (snd q)
      \<and> (\<forall>p\<in>set dropWords. \<not> crossesLine (wordsRe (fst p) (snd p)) (fst q))"
  proof
    fix q assume q: "q \<in> set ls"
    with s have "fst q \<in> set (terminatedLines raw)" by (simp add: terminatedLines_def)
    with assms have "\<not> crossing (fst q)" by blast
    then have "\<forall>p\<in>set dropWords. \<not> crossesLine (wordsRe (fst p) (snd p)) (fst q)"
      by (simp add: crossing_def dropPatterns_words list_ex_iff)
    with ls q show "(\<forall>c\<in>set (fst q). \<not> isLineTerminator c) \<and> isLineTerminator (snd q)
      \<and> (\<forall>p\<in>set dropWords. \<not> crossesLine (wordsRe (fst p) (snd p)) (fst q))"
      by blast
  qed
  have "sanitize raw
      = foldl (\<lambda>input re. jsReplaceStr (anchored [re]) [] None input) (joinLines ls final)
          (map (\<lambda>p. wordsRe (fst p) (snd p)) dropWords)"
    by (simp only: sanitize_def raw [symmetric] dropPatterns_words)
  also note passes_lines [OF dropWords_wf ls' final]
  finally have "sanitize raw
      = joinLines (map (\<lambda>q. (if setupLine (fst q) then [] else fst q, snd q)) ls)
          (if setupLine final then [] else final)"
    by (simp only: setupLine_def dropPatterns_words)
  moreover have "blankSetupLines raw
      = joinLines (map (\<lambda>q. (if setupLine (fst q) then [] else fst q, snd q)) ls)
          (if setupLine final then [] else final)"
    by (simp add: blankSetupLines_def s case_prod_unfold)
  ultimately show ?thesis by (rule trans [OF _ sym])
qed

text \<open>
  Claim C8, as amended. In a text where no line that a terminator ends is crossed by a
  \<^verbatim>\<open>\s+\<close> of the five expressions, the sanitizer replaces the text of every line that
  one of the expressions matches by the empty string and keeps the line terminators:
  the line is blanked, not removed. All other lines, blank lines included, are left as
  they are.
\<close>

theorem sanitize_blanks_lines:
  assumes "\<forall>l\<in>set (terminatedLines raw). \<not> crossing l"
  shows "sanitize raw = blankSetupLines raw"
  using assms by (rule sanitize_lines)

theorem sanitize_blanks_lines_witness:
  "terminatedLines (str ''a\<newline>git init repo\<newline>\<newline>cd  github_painter && ls\<newline>b; git init'')
     = [str ''a'', str ''git init repo'', [], str ''cd  github_painter && ls'']
   \<and> \<not> crossing (str ''a'') \<and> \<not> crossing (str ''git init repo'') \<and> \<not> crossing []
   \<and> \<not> crossing (str ''cd  github_painter && ls'')
   \<and> sanitize (str ''a\<newline>git init repo\<newline>\<newline>cd  github_painter && ls\<newline>b; git init'')
     = str ''a\<newline>\<newline>\<newline>\<newline>b; git init''
   \<and> blankSetupLines (str ''a\<newline>git init repo\<newline>\<newline>cd  github_painter && ls\<newline>b; git init'')
     = str ''a\<newline>\<newline>\<newline>\<newline>b; git init''"
proof -
  have h: "\<forall>l\<in>set (terminatedLines
      (str ''a\<newline>git init repo\<newline>\<newline>cd  github_painter && ls\<newline>b; git init'')). \<not> crossing l"
    by code_simp
  have e: "terminatedLines (str ''a\<newline>git init repo\<newline>\<newline>cd  github_painter && ls\<newline>b; git init'')
     = [str ''a'', str ''git init repo'', [], str ''cd  github_painter && ls'']
   \<and> \<not> crossing (str ''a'') \<and> \<not> crossing (str ''git init repo'') \<and> \<not> crossing []
   \<and> \<not> crossing (str ''cd  github_painter && ls'')
   \<and> blankSetupLines (str ''a\<newline>git init repo\<newline>\<newline>cd  github_painter && ls\<newline>b; git init'')
     = str ''a\<newline>\<newline>\<newline>\<newline>b; git init''"
    by code_simp
  show ?thesis
    using sanitize_blanks_lines [OF h] e by simp
qed

text \<open>
  Claim C8 as stated fails in two ways. The line \<^verbatim>\<open>git init\<close> is emptied and its line
  feed stays, where removing the whole line leaves \<^verbatim>\<open>x\<close> alone. And \<^verbatim>\<open>git\<close>, an empty
  line and \<^verbatim>\<open>init x\<close> are deleted together, the blank line with them, though none of
  the three lines matches an expression.
\<close>

theorem sanitize_lines_counterexample:
  "sanitize (str ''git init\<newline>x'') = str ''\<newline>x''
   \<and> specRemoveLines (str ''git init\<newline>x'') = str ''x''
   \<and> sanitize (str ''git\<newline>\<newline>init x'') = []
   \<and> specRemoveLines (str ''git\<newline>\<newline>init x'') = str ''git\<newline>\<newline>init x''"
  by code_simp

text \<open>
  Claim C9, at the input \<^verbatim>\<open>mkdir\<close>, \<^verbatim>\<open>git init\<close>, \<^verbatim>\<open>github_painter\<close> on three lines.
  \<^verbatim>\<open>\s+\<close> matches line terminators: once the third expression has emptied the second
  line, \<^verbatim>\<open>mkdir\<close>, the two line feeds and \<^verbatim>\<open>github_painter\<close> match the first
  expression, which has already run. The first pass leaves that text; a second pass
  removes it.
\<close>

theorem sanitize_twice:
  "sanitize (str ''mkdir\<newline>git init\<newline>github_painter'') = str ''mkdir\<newline>\<newline>github_painter''
   \<and> sanitize (sanitize (str ''mkdir\<newline>git init\<newline>github_painter'')) = []"
  by code_simp

text \<open>
  Where no \<^verbatim>\<open>\s+\<close> crosses the end of a line, a second pass changes nothing: the
  lines of the sanitized text are the blanked lines, and a blank line matches no
  expression.
\<close>

lemma splitLines_final:
  "\<forall>c\<in>set final. \<not> isLineTerminator c \<Longrightarrow> splitLines final = ([], final)"
  by (induction final) auto

lemma splitLines_line:
  assumes "\<forall>c\<in>set l. \<not> isLineTerminator c" and "isLineTerminator t"
  shows "splitLines (l @ t # rest) = ((l, t) # fst (splitLines rest), snd (splitLines rest))"
  using assms by (induction l) (auto split: prod.splits)

lemma splitLines_joinLines:
  assumes "\<forall>q\<in>set ls. (\<forall>c\<in>set (fst q). \<not> isLineTerminator c) \<and> isLineTerminator (snd q)"
    and "\<forall>c\<in>set final. \<not> isLineTerminator c"
  shows "splitLines (joinLines ls final) = (ls, final)"
  using assms(1)
proof (induction ls)
  case Nil
  then show ?case by (simp add: splitLines_final [OF assms(2)])
next
  case (Cons q ls)
  obtain l t where q: "q = (l, t)" by (cases q)
  from Cons.prems q have l: "\<forall>c\<in>set l. \<not> isLineTerminator c" and t: "isLineTerminator t" by simp_all
  from Cons.prems have "splitLines (joinLines ls final) = (ls, final)" by (intro Cons.IH) simp
  with splitLines_line [OF l t, of "joinLines ls final"] q show ?case by simp
qed

lemma setupLine_empty: "\<not> setupLine []"
  by (simp add: setupLine_def dropPatterns_def str_def)

lemma crossing_empty: "\<not> crossing []"
  by (simp add: crossing_def dropPatterns_def str_def)

lemma blankSetupLines_lines:
  assumes "splitLines raw = (ls, final)"
  shows "blankSetupLines raw
    = joinLines (map (\<lambda>q. (if setupLine (fst q) then [] else fst q, snd q)) ls)
        (if setupLine final then [] else final)"
  by (simp add: blankSetupLines_def assms case_prod_unfold)

lemma sanitize_idempotent_lines:
  assumes "\<forall>l\<in>set (terminatedLines raw). \<not> crossing l"
  shows "sanitize (sanitize raw) = sanitize raw"
proof -
  let ?b = "\<lambda>l. if setupLine l then [] else l"
  obtain ls final where s: "splitLines raw = (ls, final)" by (cases "splitLines raw")
  let ?ls = "map (\<lambda>q. (?b (fst q), snd q)) ls"
  from splitLines_props [OF s]
  have ls: "\<forall>q\<in>set ls. (\<forall>c\<in>set (fst q). \<not> isLineTerminator c) \<and> isLineTerminator (snd q)"
    and final: "\<forall>c\<in>set final. \<not> isLineTerminator c"
    by simp_all
  have once: "sanitize raw = joinLines ?ls (?b final)"
    using sanitize_lines [OF assms] blankSetupLines_lines [OF s] by simp
  have ls': "\<forall>q\<in>set ?ls. (\<forall>c\<in>set (fst q). \<not> isLineTerminator c) \<and> isLineTerminator (snd q)"
    using ls by auto
  have final': "\<forall>c\<in>set (?b final). \<not> isLineTerminator c"
    using final by simp
  have s': "splitLines (sanitize raw) = (?ls, ?b final)"
    unfolding once by (rule splitLines_joinLines [OF ls' final'])
  have "\<forall>l\<in>set (terminatedLines (sanitize raw)). \<not> crossing l"
  proof
    fix l assume "l \<in> set (terminatedLines (sanitize raw))"
    with s' obtain q where q: "q \<in> set ls" and l: "l = ?b (fst q)"
      by (auto simp: terminatedLines_def)
    from q s have "fst q \<in> set (terminatedLines raw)" by (simp add: terminatedLines_def)
    with assms have "\<not> crossing (fst q)" by blast
    with l crossing_empty show "\<not> crossing l" by simp
  qed
  from sanitize_lines [OF this] blankSetupLines_lines [OF s']
  have "sanitize (sanitize raw)
      = joinLines (map (\<lambda>q. (?b (fst q), snd q)) ?ls) (?b (?b final))"
    by simp
  also have "map (\<lambda>q. (?b (fst q), snd q)) ?ls = ?ls"
    using setupLine_empty by (simp add: o_def)
  also have "?b (?b final) = ?b final"
    using setupLine_empty by simp
  finally show ?thesis using once by simp
qed

end
